theory Spec2Isabelle
  imports Main "HOL-Library.Multiset"
begin

section \<open>Data model of Triage.c\<close>

text \<open>
  The C structs become records. A C \<open>int\<close> that holds a priority or an identifier is an
  \<open>int\<close>: the program only compares priorities, which agrees with the order of the
  integers, and only increments the identifier counter, which \<open>add_patient\<close> keeps in the
  range of a C \<open>int\<close>.
  A C \<open>int\<close> that holds a size, a capacity or an array index is a \<open>nat\<close>: the program starts
  sizes at 0 and decrements a size only after testing that it is positive, and the child
  indices \<open>2 * index + 1\<close> and \<open>2 * index + 2\<close> are taken to stay in the range of a C \<open>int\<close>.
  The parent index \<open>(index - 1) / 2\<close> of index 0 is 0 in C (division truncates) and in
  \<open>nat\<close> (subtraction stops at 0). The array behind a \<open>Patient*\<close> is a list; the structs
  \<open>MinHeap\<close> and \<open>TreatedLog\<close> have the same field names in C, here prefixed by \<open>h_\<close> and
  \<open>l_\<close>.
\<close>

record Patient =
  name :: string
  priority_level :: int
  patient_id :: int

record MinHeap =
  h_patients :: "Patient list"
  h_size :: nat
  h_capacity :: nat

record TreatedLog =
  l_patients :: "Patient list"
  l_size :: nat
  l_capacity :: nat

record TriageSystem =
  waiting_list :: MinHeap
  treated_log :: TreatedLog
  next_patient_id :: int

text \<open>
  The program reports on the console only. Each \<open>printf\<close> site is one constructor, carrying
  the values it formats (a \<open>Patient\<close> where it formats the identifier, the name and the
  priority of one); a function that prints returns the messages it printed, in order.
\<close>

datatype message =
    WaitingListFull
  | NewPatient string int
  | NoPatients
  | TreatingNext Patient
  | TreatedLogFull
  | LogHeader
  | LogEmpty
  | LogEntry Patient
  | LogFooter

section \<open>The min-heap\<close>

text \<open>
  \<open>malloc\<close> returns a block whose contents are indeterminate: the block is the first
  argument of \<open>create_heap\<close>, and has \<open>capacity\<close> cells.
\<close>

definition create_heap :: "Patient list \<Rightarrow> nat \<Rightarrow> MinHeap" where
  "create_heap block capacity =
     \<lparr>h_patients = block, h_size = 0, h_capacity = capacity\<rparr>"

text \<open>\<open>swap\<close> receives two pointers into the same array: two indices of the list.\<close>

definition swap :: "Patient list \<Rightarrow> nat \<Rightarrow> nat \<Rightarrow> Patient list" where
  "swap ps a b = (let temp = ps ! a in ps[a := ps ! b, b := temp])"

function heapify_up :: "MinHeap \<Rightarrow> nat \<Rightarrow> MinHeap" where
  "heapify_up heap index =
     (let parent_index = (index - 1) div 2 in
      if index > 0 \<and>
         priority_level (h_patients heap ! index)
           < priority_level (h_patients heap ! parent_index)
      then heapify_up
             (heap\<lparr>h_patients := swap (h_patients heap) index parent_index\<rparr>)
             parent_index
      else heap)"
  by pat_completeness auto
termination
  by (relation "measure snd") auto

text \<open>The first half of \<open>heapify_down\<close>: the index of the smallest among a node and its children.\<close>

definition smallest_of :: "MinHeap \<Rightarrow> nat \<Rightarrow> nat" where
  "smallest_of heap index =
     (let smallest = index;
          left_child = 2 * index + 1;
          right_child = 2 * index + 2;
          smallest =
            (if left_child < h_size heap \<and>
                priority_level (h_patients heap ! left_child)
                  < priority_level (h_patients heap ! smallest)
             then left_child else smallest);
          smallest =
            (if right_child < h_size heap \<and>
                priority_level (h_patients heap ! right_child)
                  < priority_level (h_patients heap ! smallest)
             then right_child else smallest)
      in smallest)"

function heapify_down :: "MinHeap \<Rightarrow> nat \<Rightarrow> MinHeap" where
  "heapify_down heap index =
     (let smallest = smallest_of heap index in
      if smallest \<noteq> index
      then heapify_down
             (heap\<lparr>h_patients := swap (h_patients heap) index smallest\<rparr>)
             smallest
      else heap)"
  by pat_completeness auto
termination
  by (relation "measure (\<lambda>(heap, index). h_size heap - index)")
     (auto simp: smallest_of_def Let_def split: if_splits)

definition insert_patient_to_heap :: "MinHeap \<Rightarrow> Patient \<Rightarrow> message list \<times> MinHeap" where
  "insert_patient_to_heap heap patient =
     (if h_size heap = h_capacity heap then ([WaitingListFull], heap)
      else
        let heap = heap\<lparr>h_size := h_size heap + 1\<rparr>;
            index = h_size heap - 1;
            heap = heap\<lparr>h_patients := (h_patients heap)[index := patient]\<rparr>
        in ([], heapify_up heap index))"

definition empty_patient :: Patient where
  "empty_patient = \<lparr>name = '''', priority_level = - 1, patient_id = - 1\<rparr>"

definition extract_min :: "MinHeap \<Rightarrow> Patient \<times> MinHeap" where
  "extract_min heap =
     (if h_size heap \<le> 0 then (empty_patient, heap)
      else if h_size heap = 1 then
        (let heap = heap\<lparr>h_size := h_size heap - 1\<rparr>
         in (h_patients heap ! 0, heap))
      else
        let root = h_patients heap ! 0;
            heap = heap\<lparr>h_patients :=
                     (h_patients heap)[0 := h_patients heap ! (h_size heap - 1)]\<rparr>;
            heap = heap\<lparr>h_size := h_size heap - 1\<rparr>
        in (root, heapify_down heap 0))"

section \<open>The triage system\<close>

definition create_triage_system :: "Patient list \<Rightarrow> Patient list \<Rightarrow> nat \<Rightarrow> TriageSystem" where
  "create_triage_system heap_block log_block initial_capacity =
     \<lparr>waiting_list = create_heap heap_block initial_capacity,
      treated_log = \<lparr>l_patients = log_block, l_size = 0, l_capacity = initial_capacity\<rparr>,
      next_patient_id = 1\<rparr>"

text \<open>
  The identifier counter is a C \<open>int\<close>, and \<open>next_patient_id++\<close> at 2147483647 cannot give
  2147483648. \<open>int_wrap\<close> brings an integer back into the range of a C \<open>int\<close> the way the
  two's-complement increment does: 2147483647 + 1 becomes -2147483648.
\<close>

definition int_wrap :: "int \<Rightarrow> int" where
  "int_wrap n = (n + 2147483648) mod 4294967296 - 2147483648"

text \<open>
  \<open>strcpy\<close> copies the name and its terminating zero into the field \<open>name[60]\<close>. A name of
  60 characters or more is written past the field and C leaves the behaviour of the
  program undefined: the result is \<open>None\<close>. Otherwise the result is \<open>Some\<close> of the messages
  printed and the new system.
\<close>

definition add_patient ::
  "TriageSystem \<Rightarrow> string \<Rightarrow> int \<Rightarrow> (message list \<times> TriageSystem) option" where
  "add_patient system nm priority =
     (if 60 \<le> length nm then None
      else
        let new_patient =
              \<lparr>name = nm, priority_level = priority, patient_id = next_patient_id system\<rparr>;
            system = system\<lparr>next_patient_id := int_wrap (next_patient_id system + 1)\<rparr>;
            (out, heap) = insert_patient_to_heap (waiting_list system) new_patient
        in Some (out @ [NewPatient nm priority], system\<lparr>waiting_list := heap\<rparr>))"

definition treat_next_patient :: "TriageSystem \<Rightarrow> message list \<times> TriageSystem" where
  "treat_next_patient system =
     (if h_size (waiting_list system) = 0 then ([NoPatients], system)
      else
        let (patient_to_treat, heap) = extract_min (waiting_list system);
            system = system\<lparr>waiting_list := heap\<rparr>;
            out = [TreatingNext patient_to_treat];
            log = treated_log system
        in if l_size log < l_capacity log
           then (out, system\<lparr>treated_log :=
                        log\<lparr>l_patients := (l_patients log)[l_size log := patient_to_treat],
                            l_size := l_size log + 1\<rparr>\<rparr>)
           else (out @ [TreatedLogFull], system))"

text \<open>The loop of \<open>view_treated_log\<close>: the records it reads, in the order it prints them.\<close>

definition logged :: "TriageSystem \<Rightarrow> Patient list" where
  "logged system =
     map (\<lambda>i. l_patients (treated_log system) ! i) [0..<l_size (treated_log system)]"

definition view_treated_log :: "TriageSystem \<Rightarrow> message list" where
  "view_treated_log system =
     [LogHeader] @
     (if l_size (treated_log system) = 0 then [LogEmpty]
      else map LogEntry (logged system)) @
     [LogFooter]"

section \<open>Invariants and call sequences\<close>

text \<open>
  The array has \<open>capacity\<close> cells and the first \<open>size\<close> of them are in use. Under this
  invariant every array access of the heap functions is inside the array: the walks read
  a cell only below \<open>size\<close>, \<open>insert_patient_to_heap\<close> writes cell \<open>size\<close> only when
  \<open>size\<close> is not \<open>capacity\<close>, and \<open>extract_min\<close> reads cells 0 and \<open>size - 1\<close> only when
  \<open>size\<close> is positive.
\<close>

definition heap_wf :: "MinHeap \<Rightarrow> bool" where
  "heap_wf heap \<longleftrightarrow>
     h_size heap \<le> h_capacity heap \<and> length (h_patients heap) = h_capacity heap"

text \<open>The heap-order invariant, on the cells in use: a node is not above its children.\<close>

definition heap_order :: "MinHeap \<Rightarrow> bool" where
  "heap_order heap \<longleftrightarrow>
     (\<forall>i<h_size heap.
        (2 * i + 1 < h_size heap \<longrightarrow>
           priority_level (h_patients heap ! i) \<le> priority_level (h_patients heap ! (2 * i + 1))) \<and>
        (2 * i + 2 < h_size heap \<longrightarrow>
           priority_level (h_patients heap ! i) \<le> priority_level (h_patients heap ! (2 * i + 2))))"

text \<open>The records currently in the heap.\<close>

definition live :: "MinHeap \<Rightarrow> Patient list" where
  "live heap = take (h_size heap) (h_patients heap)"

text \<open>
  The position of the structurally leftmost record of minimum priority: the first cell in
  use, in array order, whose priority is the minimum of the priorities in use.
\<close>

definition leftmost_minimum :: "MinHeap \<Rightarrow> nat" where
  "leftmost_minimum heap =
     (let m = Min (set (map priority_level (live heap)))
      in length (takeWhile (\<lambda>p. priority_level p \<noteq> m) (live heap)))"

text \<open>Sequences of calls on a heap.\<close>

datatype heap_call = Insert Patient | ExtractMin

fun heap_calls :: "MinHeap \<Rightarrow> heap_call list \<Rightarrow> MinHeap" where
  "heap_calls heap [] = heap"
| "heap_calls heap (Insert p # calls) = heap_calls (snd (insert_patient_to_heap heap p)) calls"
| "heap_calls heap (ExtractMin # calls) = heap_calls (snd (extract_min heap)) calls"

fun insert_all :: "MinHeap \<Rightarrow> Patient list \<Rightarrow> MinHeap" where
  "insert_all heap [] = heap"
| "insert_all heap (p # ps) = insert_all (snd (insert_patient_to_heap heap p)) ps"

fun extract_n :: "nat \<Rightarrow> MinHeap \<Rightarrow> Patient list" where
  "extract_n 0 heap = []"
| "extract_n (Suc n) heap = fst (extract_min heap) # extract_n n (snd (extract_min heap))"

text \<open>
  Sequences of calls on a triage system, with the console output they produce. A run ends
  at an admission whose name does not fit the name field: the behaviour of the program is
  undefined from there, and the run gives the output and the system reached before it.
\<close>

datatype call = is_Admit: Admit string int | ServeNext

fun run_calls :: "TriageSystem \<Rightarrow> call list \<Rightarrow> message list \<times> TriageSystem" where
  "run_calls system [] = ([], system)"
| "run_calls system (Admit nm priority # calls) =
     (case add_patient system nm priority of
        None \<Rightarrow> ([], system)
      | Some r \<Rightarrow> (fst r @ fst (run_calls (snd r) calls), snd (run_calls (snd r) calls)))"
| "run_calls system (ServeNext # calls) =
     (fst (treat_next_patient system) @ fst (run_calls (snd (treat_next_patient system)) calls),
      snd (run_calls (snd (treat_next_patient system)) calls))"

text \<open>Every name admitted by a sequence of calls fits the name field.\<close>

fun names_fit :: "call list \<Rightarrow> bool" where
  "names_fit [] = True"
| "names_fit (Admit nm priority # calls) = (length nm < 60 \<and> names_fit calls)"
| "names_fit (ServeNext # calls) = names_fit calls"

text \<open>The patients a console output reports as treated, in order.\<close>

fun served :: "message list \<Rightarrow> Patient list" where
  "served [] = []"
| "served (TreatingNext p # out) = p # served out"
| "served (m # out) = served out"

definition log_wf :: "TreatedLog \<Rightarrow> bool" where
  "log_wf log \<longleftrightarrow> l_size log \<le> l_capacity log \<and> length (l_patients log) = l_capacity log"

text \<open>Auxiliary notions for the two restoration walks.\<close>

definition prio :: "Patient list \<Rightarrow> nat \<Rightarrow> int" where
  "prio ps i = priority_level (ps ! i)"

definition parent_le :: "Patient list \<Rightarrow> nat \<Rightarrow> bool" where
  "parent_le ps j \<longleftrightarrow> prio ps ((j - 1) div 2) \<le> prio ps j"

text \<open>
  The order holds everywhere except between \<open>k\<close> and its parent, and the parent of \<open>k\<close> is
  not above the children of \<open>k\<close>: the state in which \<open>heapify_up\<close> is called on \<open>k\<close>.
\<close>

definition except_up :: "Patient list \<Rightarrow> nat \<Rightarrow> nat \<Rightarrow> bool" where
  "except_up ps n k \<longleftrightarrow>
     (\<forall>j. 0 < j \<and> j < n \<longrightarrow>
        (j \<noteq> k \<longrightarrow> parent_le ps j) \<and>
        ((j - 1) div 2 = k \<and> 0 < k \<longrightarrow> prio ps ((k - 1) div 2) \<le> prio ps j))"

text \<open>
  The order holds everywhere except between \<open>k\<close> and its children, and the parent of \<open>k\<close>
  is not above the children of \<open>k\<close>: the state in which \<open>heapify_down\<close> is called on \<open>k\<close>.
\<close>

definition except_down :: "Patient list \<Rightarrow> nat \<Rightarrow> nat \<Rightarrow> bool" where
  "except_down ps n k \<longleftrightarrow>
     (\<forall>j. 0 < j \<and> j < n \<longrightarrow>
        ((j - 1) div 2 \<noteq> k \<longrightarrow> parent_le ps j) \<and>
        ((j - 1) div 2 = k \<and> 0 < k \<longrightarrow> prio ps ((k - 1) div 2) \<le> prio ps j))"

section \<open>The restoration walks\<close>

lemma heap_order_parent:
  "heap_order heap \<longleftrightarrow> (\<forall>j. 0 < j \<and> j < h_size heap \<longrightarrow> parent_le (h_patients heap) j)"
proof
  assume ord: "heap_order heap"
  show "\<forall>j. 0 < j \<and> j < h_size heap \<longrightarrow> parent_le (h_patients heap) j"
  proof (intro allI impI)
    fix j assume j: "0 < j \<and> j < h_size heap"
    define i where "i = (j - 1) div 2"
    from j have "j = 2 * i + 1 \<or> j = 2 * i + 2" and "i < h_size heap"
      unfolding i_def by presburger+
    with ord j show "parent_le (h_patients heap) j"
      unfolding heap_order_def parent_le_def prio_def i_def [symmetric] by auto
  qed
next
  assume par: "\<forall>j. 0 < j \<and> j < h_size heap \<longrightarrow> parent_le (h_patients heap) j"
  show "heap_order heap"
    unfolding heap_order_def
  proof (intro allI impI conjI)
    fix i assume "2 * i + 1 < h_size heap"
    with par have "parent_le (h_patients heap) (2 * i + 1)" by simp
    then show "priority_level (h_patients heap ! i)
                 \<le> priority_level (h_patients heap ! (2 * i + 1))"
      by (simp add: parent_le_def prio_def)
  next
    fix i assume "2 * i + 2 < h_size heap"
    with par have "parent_le (h_patients heap) (2 * i + 2)" by simp
    moreover have "(2 * i + 2 - 1) div 2 = i" by presburger
    ultimately show "priority_level (h_patients heap ! i)
                 \<le> priority_level (h_patients heap ! (2 * i + 2))"
      by (simp add: parent_le_def prio_def)
  qed
qed

lemma swap_nth:
  "a < length ps \<Longrightarrow> b < length ps \<Longrightarrow>
   swap ps a b ! j = (if j = b then ps ! a else if j = a then ps ! b else ps ! j)"
  by (simp add: swap_def Let_def nth_list_update)

lemma prio_swap:
  "a < length ps \<Longrightarrow> b < length ps \<Longrightarrow>
   prio (swap ps a b) j = (if j = b then prio ps a else if j = a then prio ps b else prio ps j)"
  by (simp add: prio_def swap_nth)

lemma length_swap [simp]: "length (swap ps a b) = length ps"
  by (simp add: swap_def Let_def)

lemma mset_take_swap:
  assumes "a < n" "b < n" "n \<le> length ps"
  shows "mset (take n (swap ps a b)) = mset (take n ps)"
proof -
  have "take n (swap ps a b) = (take n ps)[a := take n ps ! b, b := take n ps ! a]"
    using assms by (simp add: swap_def Let_def take_update_swap)
  moreover have "mset ((take n ps)[a := take n ps ! b, b := take n ps ! a]) = mset (take n ps)"
    using mset_swap [of b "take n ps" a] assms by simp
  ultimately show ?thesis
    by (simp only:)
qed

declare heapify_up.simps [simp del] heapify_down.simps [simp del]

lemma heapify_up_step:
  "0 < k \<and> priority_level (h_patients heap ! k)
             < priority_level (h_patients heap ! ((k - 1) div 2)) \<Longrightarrow>
   heapify_up heap k =
     heapify_up (heap\<lparr>h_patients := swap (h_patients heap) k ((k - 1) div 2)\<rparr>) ((k - 1) div 2)"
  by (subst heapify_up.simps) (simp add: Let_def)

lemma heapify_up_stop:
  "\<not> (0 < k \<and> priority_level (h_patients heap ! k)
                < priority_level (h_patients heap ! ((k - 1) div 2))) \<Longrightarrow>
   heapify_up heap k = heap"
  by (subst heapify_up.simps) (auto simp add: Let_def)

lemma heapify_up_frame:
  "h_size (heapify_up heap k) = h_size heap \<and>
   h_capacity (heapify_up heap k) = h_capacity heap \<and>
   length (h_patients (heapify_up heap k)) = length (h_patients heap)"
proof (induction heap k rule: heapify_up.induct)
  case (1 heap index)
  show ?case
    by (subst (1 2 3) heapify_up.simps) (use 1 in \<open>simp add: Let_def\<close>)
qed

lemma heapify_up_mset:
  "k < h_size heap \<Longrightarrow> h_size heap \<le> length (h_patients heap) \<Longrightarrow>
   mset (live (heapify_up heap k)) = mset (live heap)"
proof (induction heap k rule: heapify_up.induct)
  case (1 heap index)
  show ?case
  proof (cases "index > 0 \<and> priority_level (h_patients heap ! index)
                  < priority_level (h_patients heap ! ((index - 1) div 2))")
    case True
    let ?heap' = "heap\<lparr>h_patients := swap (h_patients heap) index ((index - 1) div 2)\<rparr>"
    from True "1.prems" have lt: "(index - 1) div 2 < h_size heap" by simp
    have "mset (live (heapify_up ?heap' ((index - 1) div 2))) = mset (live ?heap')"
      using "1.IH" [OF refl True] "1.prems" lt by simp
    also have "\<dots> = mset (live heap)"
      using "1.prems" lt by (simp add: live_def mset_take_swap)
    finally show ?thesis
      using True by (simp add: heapify_up_step)
  next
    case False
    then show ?thesis
      using heapify_up_stop [of index heap] by simp
  qed
qed

lemma except_up_swap:
  assumes eu: "except_up ps n k"
    and k: "0 < k" "k < n" "n \<le> length ps"
    and lt: "prio ps k < prio ps ((k - 1) div 2)"
  shows "except_up (swap ps k ((k - 1) div 2)) n ((k - 1) div 2)"
proof -
  define p where "p = (k - 1) div 2"
  have pk: "p < k" using k by (simp add: p_def)
  have len: "k < length ps" "p < length ps" using k pk by simp_all
  have old1: "\<And>j. 0 < j \<Longrightarrow> j < n \<Longrightarrow> j \<noteq> k \<Longrightarrow> prio ps ((j - 1) div 2) \<le> prio ps j"
    using eu by (simp add: except_up_def parent_le_def)
  have old2: "\<And>j. 0 < j \<Longrightarrow> j < n \<Longrightarrow> (j - 1) div 2 = k \<Longrightarrow> prio ps p \<le> prio ps j"
    using eu k by (simp add: except_up_def p_def)
  show ?thesis
    unfolding except_up_def parent_le_def p_def [symmetric]
  proof (intro allI impI conjI)
    fix j assume j: "0 < j \<and> j < n" and jp: "j \<noteq> p"
    have pj: "(j - 1) div 2 < j" using j by presburger
    consider "j = k" | "j \<noteq> k" "(j - 1) div 2 = k" | "j \<noteq> k" "(j - 1) div 2 = p"
      | "j \<noteq> k" "(j - 1) div 2 \<noteq> k" "(j - 1) div 2 \<noteq> p"
      by blast
    then show "prio (swap ps k p) ((j - 1) div 2) \<le> prio (swap ps k p) j"
    proof cases
      case 1
      then show ?thesis using lt len pk by (simp add: prio_swap p_def)
    next
      case 2
      then show ?thesis using old2 [of j] j jp len pk by (simp add: prio_swap)
    next
      case 3
      then show ?thesis using old1 [of j] j jp lt len by (simp add: prio_swap p_def)
    next
      case 4
      then show ?thesis using old1 [of j] j jp len by (simp add: prio_swap)
    qed
  next
    fix j assume j: "0 < j \<and> j < n" and jp: "(j - 1) div 2 = p \<and> 0 < p"
    have pp: "(p - 1) div 2 < p" using jp by presburger
    have "prio ps ((p - 1) div 2) \<le> prio ps p"
      using old1 [of p] jp pk k by simp
    moreover have "j \<noteq> k \<Longrightarrow> prio ps p \<le> prio ps j"
      using old1 [of j] j jp by simp
    ultimately show "prio (swap ps k p) ((p - 1) div 2) \<le> prio (swap ps k p) j"
      using pp pk jp len by (auto simp: prio_swap)
  qed
qed

lemma heapify_up_order:
  "k < h_size heap \<Longrightarrow> h_size heap \<le> length (h_patients heap) \<Longrightarrow>
   except_up (h_patients heap) (h_size heap) k \<Longrightarrow> heap_order (heapify_up heap k)"
proof (induction heap k rule: heapify_up.induct)
  case (1 heap index)
  show ?case
  proof (cases "index > 0 \<and> priority_level (h_patients heap ! index)
                  < priority_level (h_patients heap ! ((index - 1) div 2))")
    case True
    let ?heap' = "heap\<lparr>h_patients := swap (h_patients heap) index ((index - 1) div 2)\<rparr>"
    from True "1.prems" have lt: "(index - 1) div 2 < h_size heap" by simp
    have "except_up (h_patients ?heap') (h_size ?heap') ((index - 1) div 2)"
      using except_up_swap [of "h_patients heap" "h_size heap" index] True "1.prems"
      by (simp add: prio_def)
    then have "heap_order (heapify_up ?heap' ((index - 1) div 2))"
      using "1.IH" [OF refl True] "1.prems" lt by simp
    then show ?thesis
      using True by (simp add: heapify_up_step)
  next
    case False
    have "\<forall>j. 0 < j \<and> j < h_size heap \<longrightarrow> parent_le (h_patients heap) j"
    proof (intro allI impI)
      fix j assume j: "0 < j \<and> j < h_size heap"
      show "parent_le (h_patients heap) j"
      proof (cases "j = index")
        case True
        with False j show ?thesis by (simp add: parent_le_def prio_def)
      next
        case False
        with "1.prems" j show ?thesis by (simp add: except_up_def)
      qed
    qed
    then have "heap_order heap" by (simp add: heap_order_parent)
    then show ?thesis
      using heapify_up_stop [OF False] by simp
  qed
qed

lemma smallest_of_range:
  "smallest_of heap k = k \<or>
   (smallest_of heap k = 2 * k + 1 \<and> 2 * k + 1 < h_size heap) \<or>
   (smallest_of heap k = 2 * k + 2 \<and> 2 * k + 2 < h_size heap)"
  by (simp add: smallest_of_def Let_def)

lemma smallest_of_le_child:
  "0 < j \<Longrightarrow> j < h_size heap \<Longrightarrow> (j - 1) div 2 = k \<Longrightarrow>
   prio (h_patients heap) (smallest_of heap k) \<le> prio (h_patients heap) j"
proof -
  assume "0 < j" "j < h_size heap" "(j - 1) div 2 = k"
  then have "j = 2 * k + 1 \<or> j = 2 * k + 2" by presburger
  with \<open>j < h_size heap\<close> show ?thesis
    by (auto simp: smallest_of_def Let_def prio_def)
qed

lemma smallest_of_less:
  "smallest_of heap k \<noteq> k \<Longrightarrow>
   prio (h_patients heap) (smallest_of heap k) < prio (h_patients heap) k"
  by (auto simp: smallest_of_def Let_def prio_def split: if_splits)

lemma heapify_down_step:
  "smallest_of heap k \<noteq> k \<Longrightarrow>
   heapify_down heap k =
     heapify_down (heap\<lparr>h_patients := swap (h_patients heap) k (smallest_of heap k)\<rparr>)
       (smallest_of heap k)"
  by (subst heapify_down.simps) (simp add: Let_def)

lemma heapify_down_stop:
  "smallest_of heap k = k \<Longrightarrow> heapify_down heap k = heap"
  by (subst heapify_down.simps) (simp add: Let_def)

lemma heapify_down_frame:
  "h_size (heapify_down heap k) = h_size heap \<and>
   h_capacity (heapify_down heap k) = h_capacity heap \<and>
   length (h_patients (heapify_down heap k)) = length (h_patients heap)"
proof (induction heap k rule: heapify_down.induct)
  case (1 heap index)
  show ?case
  proof (cases "smallest_of heap index = index")
    case True
    then show ?thesis by (simp add: heapify_down_stop)
  next
    case False
    then show ?thesis
      using "1.IH" [OF refl False] by (simp add: heapify_down_step)
  qed
qed

lemma heapify_down_mset:
  "k < h_size heap \<Longrightarrow> h_size heap \<le> length (h_patients heap) \<Longrightarrow>
   mset (live (heapify_down heap k)) = mset (live heap)"
proof (induction heap k rule: heapify_down.induct)
  case (1 heap index)
  show ?case
  proof (cases "smallest_of heap index = index")
    case True
    then show ?thesis by (simp add: heapify_down_stop)
  next
    case False
    let ?s = "smallest_of heap index"
    let ?heap' = "heap\<lparr>h_patients := swap (h_patients heap) index ?s\<rparr>"
    from False have lt: "?s < h_size heap"
      using smallest_of_range [of heap index] by auto
    have "mset (live (heapify_down ?heap' ?s)) = mset (live ?heap')"
      using "1.IH" [OF refl False] "1.prems" lt by simp
    also have "\<dots> = mset (live heap)"
      using "1.prems" lt by (simp add: live_def mset_take_swap)
    finally show ?thesis
      using False by (simp add: heapify_down_step)
  qed
qed

lemma except_down_swap:
  assumes ed: "except_down (h_patients heap) (h_size heap) k"
    and k: "k < h_size heap" "h_size heap \<le> length (h_patients heap)"
    and ne: "smallest_of heap k \<noteq> k"
  shows "except_down (swap (h_patients heap) k (smallest_of heap k)) (h_size heap)
           (smallest_of heap k)"
proof -
  define s where "s = smallest_of heap k"
  define ps where "ps = h_patients heap"
  define n where "n = h_size heap"
  have s_child: "(s = 2 * k + 1 \<or> s = 2 * k + 2) \<and> s < n"
    using smallest_of_range [of heap k] ne by (auto simp: s_def n_def)
  then have ks: "k < s" and sk: "(s - 1) div 2 = k" and s0: "0 < s" and sn: "s < n"
    by presburger+
  have len: "k < length ps" "s < length ps"
    using k sn by (simp_all add: ps_def n_def)
  have old1: "\<And>j. 0 < j \<Longrightarrow> j < n \<Longrightarrow> (j - 1) div 2 \<noteq> k \<Longrightarrow>
                prio ps ((j - 1) div 2) \<le> prio ps j"
    using ed by (simp add: except_down_def parent_le_def ps_def n_def)
  have old2: "\<And>j. 0 < j \<Longrightarrow> j < n \<Longrightarrow> (j - 1) div 2 = k \<Longrightarrow> 0 < k \<Longrightarrow>
                prio ps ((k - 1) div 2) \<le> prio ps j"
    using ed by (simp add: except_down_def ps_def n_def)
  have child: "\<And>j. 0 < j \<Longrightarrow> j < n \<Longrightarrow> (j - 1) div 2 = k \<Longrightarrow> prio ps s \<le> prio ps j"
    using smallest_of_le_child [of _ heap k] by (simp add: s_def ps_def n_def)
  have less: "prio ps s < prio ps k"
    using smallest_of_less [OF ne] by (simp add: s_def ps_def)
  show ?thesis
    unfolding except_down_def parent_le_def s_def [symmetric] ps_def [symmetric]
      n_def [symmetric]
  proof (intro allI impI conjI)
    fix j assume j: "0 < j \<and> j < n" and js: "(j - 1) div 2 \<noteq> s"
    have pj: "(j - 1) div 2 < j" using j by presburger
    consider "j = s" | "j \<noteq> s" "(j - 1) div 2 = k" | "j = k"
      | "j \<noteq> s" "j \<noteq> k" "(j - 1) div 2 \<noteq> k"
      by blast
    then show "prio (swap ps k s) ((j - 1) div 2) \<le> prio (swap ps k s) j"
    proof cases
      case 1
      then show ?thesis using less len ks sk by (simp add: prio_swap)
    next
      case 2
      then show ?thesis using child [of j] j pj len ks by (simp add: prio_swap)
    next
      case 3
      have "(k - 1) div 2 < k" using 3 j by presburger
      then show ?thesis
        using 3 old2 [of s] s0 sn sk j js len ks by (simp add: prio_swap)
    next
      case 4
      then show ?thesis using old1 [of j] j js len by (simp add: prio_swap)
    qed
  next
    fix j assume j: "0 < j \<and> j < n" and js: "(j - 1) div 2 = s \<and> 0 < s"
    have "s < j" using j js by presburger
    moreover have "prio ps s \<le> prio ps j"
      using old1 [of j] j js ks by simp
    ultimately show "prio (swap ps k s) ((s - 1) div 2) \<le> prio (swap ps k s) j"
      using sk ks len by (simp add: prio_swap)
  qed
qed

lemma heapify_down_order:
  "k < h_size heap \<Longrightarrow> h_size heap \<le> length (h_patients heap) \<Longrightarrow>
   except_down (h_patients heap) (h_size heap) k \<Longrightarrow> heap_order (heapify_down heap k)"
proof (induction heap k rule: heapify_down.induct)
  case (1 heap index)
  show ?case
  proof (cases "smallest_of heap index = index")
    case True
    have "\<forall>j. 0 < j \<and> j < h_size heap \<longrightarrow> parent_le (h_patients heap) j"
    proof (intro allI impI)
      fix j assume j: "0 < j \<and> j < h_size heap"
      show "parent_le (h_patients heap) j"
      proof (cases "(j - 1) div 2 = index")
        case True
        then show ?thesis
          using smallest_of_le_child [of j heap index] j \<open>smallest_of heap index = index\<close>
          by (simp add: parent_le_def)
      next
        case False
        with "1.prems" j show ?thesis by (simp add: except_down_def)
      qed
    qed
    then have "heap_order heap" by (simp add: heap_order_parent)
    then show ?thesis using True by (simp add: heapify_down_stop)
  next
    case False
    let ?s = "smallest_of heap index"
    let ?heap' = "heap\<lparr>h_patients := swap (h_patients heap) index ?s\<rparr>"
    from False have lt: "?s < h_size heap"
      using smallest_of_range [of heap index] by auto
    have "except_down (h_patients ?heap') (h_size ?heap') ?s"
      using except_down_swap [OF "1.prems"(3) "1.prems"(1) "1.prems"(2) False] by simp
    then have "heap_order (heapify_down ?heap' ?s)"
      using "1.IH" [OF refl False] "1.prems" lt by simp
    then show ?thesis
      using False by (simp add: heapify_down_step)
  qed
qed

lemma heap_order_root_min:
  assumes "heap_order heap" "i < h_size heap"
  shows "prio (h_patients heap) 0 \<le> prio (h_patients heap) i"
  using assms(2)
proof (induction i rule: less_induct)
  case (less i)
  show ?case
  proof (cases "i = 0")
    case True
    then show ?thesis by simp
  next
    case False
    then have lt: "(i - 1) div 2 < i" by presburger
    have "prio (h_patients heap) 0 \<le> prio (h_patients heap) ((i - 1) div 2)"
      using less.IH [OF lt] lt less.prems by simp
    moreover have "parent_le (h_patients heap) i"
      using assms(1) False less.prems by (simp add: heap_order_parent)
    ultimately show ?thesis by (simp add: parent_le_def)
  qed
qed

lemma insert_full:
  "h_size heap = h_capacity heap \<Longrightarrow>
   insert_patient_to_heap heap p = ([WaitingListFull], heap)"
  by (simp add: insert_patient_to_heap_def)

lemma insert_room:
  "h_size heap \<noteq> h_capacity heap \<Longrightarrow>
   insert_patient_to_heap heap p =
     ([], heapify_up (heap\<lparr>h_size := h_size heap + 1,
                          h_patients := (h_patients heap)[h_size heap := p]\<rparr>) (h_size heap))"
  by (simp add: insert_patient_to_heap_def Let_def)

lemma insert_size:
  "h_size heap \<noteq> h_capacity heap \<Longrightarrow>
   h_size (snd (insert_patient_to_heap heap p)) = h_size heap + 1"
  by (simp add: insert_room heapify_up_frame)

lemma insert_wf:
  "heap_wf heap \<Longrightarrow> heap_wf (snd (insert_patient_to_heap heap p))"
  by (cases "h_size heap = h_capacity heap")
     (simp_all add: insert_full insert_room heapify_up_frame heap_wf_def)

lemma insert_mset:
  assumes "heap_wf heap" "h_size heap \<noteq> h_capacity heap"
  shows "mset (live (snd (insert_patient_to_heap heap p))) = add_mset p (mset (live heap))"
proof -
  let ?n = "h_size heap"
  let ?heap' = "heap\<lparr>h_size := ?n + 1, h_patients := (h_patients heap)[?n := p]\<rparr>"
  from assms have n: "?n < length (h_patients heap)" by (simp add: heap_wf_def)
  have "mset (live (heapify_up ?heap' ?n)) = mset (live ?heap')"
    using n by (intro heapify_up_mset) simp_all
  also have "live ?heap' = live heap @ [p]"
    using n by (simp add: live_def take_Suc_conv_app_nth)
  finally show ?thesis
    using assms by (simp add: insert_room)
qed

lemma insert_order:
  assumes "heap_wf heap" "heap_order heap"
  shows "heap_order (snd (insert_patient_to_heap heap p))"
proof (cases "h_size heap = h_capacity heap")
  case True
  with assms show ?thesis by (simp add: insert_full)
next
  case False
  let ?n = "h_size heap"
  let ?heap' = "heap\<lparr>h_size := ?n + 1, h_patients := (h_patients heap)[?n := p]\<rparr>"
  from assms False have n: "?n < length (h_patients heap)" by (simp add: heap_wf_def)
  have "except_up (h_patients ?heap') (h_size ?heap') ?n"
    unfolding except_up_def
  proof (intro allI impI conjI)
    fix j assume j: "0 < j \<and> j < h_size ?heap'" and ne: "j \<noteq> ?n"
    then have jn: "j < ?n" by simp
    then have "(j - 1) div 2 < ?n" by presburger
    moreover have "parent_le (h_patients heap) j"
      using assms(2) j jn by (simp add: heap_order_parent)
    ultimately show "parent_le (h_patients ?heap') j"
      using jn by (simp add: parent_le_def prio_def)
  next
    fix j assume j: "0 < j \<and> j < h_size ?heap'" and "(j - 1) div 2 = ?n \<and> 0 < ?n"
    then have False by simp presburger
    then show "prio (h_patients ?heap') ((?n - 1) div 2) \<le> prio (h_patients ?heap') j" ..
  qed
  then have "heap_order (heapify_up ?heap' ?n)"
    using n by (intro heapify_up_order) simp_all
  then show ?thesis
    using False by (simp add: insert_room)
qed

lemma extract_empty:
  "h_size heap = 0 \<Longrightarrow> extract_min heap = (empty_patient, heap)"
  by (simp add: extract_min_def)

lemma extract_root:
  "0 < h_size heap \<Longrightarrow> fst (extract_min heap) = h_patients heap ! 0"
  by (simp add: extract_min_def Let_def)

lemma extract_one:
  "h_size heap = 1 \<Longrightarrow> snd (extract_min heap) = heap\<lparr>h_size := 0\<rparr>"
  by (simp add: extract_min_def Let_def)

lemma extract_many:
  "1 < h_size heap \<Longrightarrow>
   snd (extract_min heap) =
     heapify_down (heap\<lparr>h_patients := (h_patients heap)[0 := h_patients heap ! (h_size heap - 1)],
                        h_size := h_size heap - 1\<rparr>) 0"
  by (simp add: extract_min_def Let_def)

lemma extract_size:
  "h_size (snd (extract_min heap)) = h_size heap - 1"
proof -
  consider "h_size heap = 0" | "h_size heap = 1" | "1 < h_size heap" by linarith
  then show ?thesis
    by cases (simp_all add: extract_empty extract_one extract_many heapify_down_frame)
qed

lemma extract_wf:
  "heap_wf heap \<Longrightarrow> heap_wf (snd (extract_min heap))"
  by (cases "h_size heap = 0"; cases "h_size heap = 1")
     (auto simp: heap_wf_def extract_empty extract_one extract_many heapify_down_frame)

lemma extract_mset:
  assumes "heap_wf heap" "0 < h_size heap"
  shows "mset (live heap) = add_mset (fst (extract_min heap)) (mset (live (snd (extract_min heap))))"
proof (cases "h_size heap = 1")
  case True
  with assms have "live heap = [h_patients heap ! 0]"
    by (simp add: live_def heap_wf_def take_Suc_conv_app_nth)
  with True show ?thesis
    by (simp add: extract_root extract_one live_def)
next
  case False
  define n where "n = h_size heap"
  define ps where "ps = h_patients heap"
  define xs where "xs = tl (take (n - 1) ps)"
  let ?heap' = "heap\<lparr>h_patients := ps[0 := ps ! (n - 1)], h_size := n - 1\<rparr>"
  from False assms have n: "1 < n" "n \<le> length ps"
    by (simp_all add: heap_wf_def n_def ps_def)
  have "take (n - 1) ps \<noteq> []" using n by auto
  moreover have "take (n - 1) ps ! 0 = ps ! 0" using n by simp
  ultimately have front: "take (n - 1) ps = ps ! 0 # xs"
    unfolding xs_def by (metis hd_conv_nth list.collapse)
  have old: "live heap = ps ! 0 # xs @ [ps ! (n - 1)]"
    using n take_Suc_conv_app_nth [of "n - 1" ps] front by (simp add: live_def n_def ps_def)
  have new: "live ?heap' = ps ! (n - 1) # xs"
    using front by (simp add: live_def take_update_swap)
  have "mset (live (heapify_down ?heap' 0)) = mset (live ?heap')"
    using n by (intro heapify_down_mset) simp_all
  then have "mset (live (snd (extract_min heap))) = mset (ps ! (n - 1) # xs)"
    using n new by (simp add: extract_many n_def ps_def)
  moreover have "fst (extract_min heap) = ps ! 0"
    using assms(2) by (simp add: extract_root ps_def)
  ultimately show ?thesis
    using old by simp
qed

lemma extract_order:
  assumes "heap_wf heap" "heap_order heap"
  shows "heap_order (snd (extract_min heap))"
proof -
  consider "h_size heap = 0" | "h_size heap = 1" | "1 < h_size heap" by linarith
  then show ?thesis
  proof cases
    case 1
    with assms show ?thesis by (simp add: extract_empty)
  next
    case 2
    then show ?thesis by (simp add: extract_one heap_order_def)
  next
    case 3
    let ?n = "h_size heap"
    let ?ps = "h_patients heap"
    let ?heap' = "heap\<lparr>h_patients := ?ps[0 := ?ps ! (?n - 1)], h_size := ?n - 1\<rparr>"
    from 3 assms have n: "?n \<le> length ?ps" by (simp add: heap_wf_def)
    have "except_down (h_patients ?heap') (h_size ?heap') 0"
      unfolding except_down_def
    proof (intro allI impI conjI)
      fix j assume j: "0 < j \<and> j < h_size ?heap'" and ne: "(j - 1) div 2 \<noteq> 0"
      from j have "j < ?n" by auto
      then have "parent_le ?ps j"
        using assms(2) j by (simp add: heap_order_parent)
      then show "parent_le (h_patients ?heap') j"
        using j ne by (simp add: parent_le_def prio_def)
    next
      fix j :: nat assume "(j - 1) div 2 = 0 \<and> (0::nat) < 0"
      then show "prio (h_patients ?heap') ((0 - 1) div 2) \<le> prio (h_patients ?heap') j"
        by simp
    qed
    then have "heap_order (heapify_down ?heap' 0)"
      using 3 n by (intro heapify_down_order) simp_all
    then show ?thesis
      using 3 by (simp add: extract_many)
  qed
qed

section \<open>Boundaries of the heap and of the triage system\<close>

lemma treat_empty:
  "h_size (waiting_list system) = 0 \<Longrightarrow> treat_next_patient system = ([NoPatients], system)"
  by (simp add: treat_next_patient_def)

text \<open>
  C8. When the waiting list is empty, \<open>treat_next_patient\<close> prints that there is nobody to
  treat and returns: it reports no treated patient, and the system is the one it was given,
  so the heap size stays 0 and the length and contents of the treated log and the next
  identifier are unchanged.
\<close>

theorem serve_next_on_empty_heap_changes_nothing:
  "h_size (waiting_list system) = 0 \<Longrightarrow>
   treat_next_patient system = ([NoPatients], system) \<and>
   served (fst (treat_next_patient system)) = [] \<and>
   h_size (waiting_list (snd (treat_next_patient system))) = 0 \<and>
   l_size (treated_log (snd (treat_next_patient system))) = l_size (treated_log system) \<and>
   logged (snd (treat_next_patient system)) = logged system \<and>
   next_patient_id (snd (treat_next_patient system)) = next_patient_id system"
  by (simp add: treat_next_patient_def)

theorem serve_next_on_empty_heap_changes_nothing_witness:
  "h_size (waiting_list (create_triage_system [] [] 0)) = 0 \<and>
   treat_next_patient (create_triage_system [] [] 0) = ([NoPatients], create_triage_system [] [] 0) \<and>
   next_patient_id (snd (treat_next_patient (create_triage_system [] [] 0))) = 1"
  using serve_next_on_empty_heap_changes_nothing [of "create_triage_system [] [] 0"]
  by (simp add: create_triage_system_def create_heap_def)

text \<open>
  C6. The failure of an insertion is the console message \<open>WaitingListFull\<close>. On a heap whose
  size equals its capacity, \<open>insert_patient_to_heap\<close> prints it and returns the heap it was
  given, so no field and no stored record changes. On a heap whose size is below its
  capacity it prints nothing, and the size grows by exactly 1; the records in the heap
  are then the earlier ones and the new one.
\<close>

theorem insert_at_capacity_boundary:
  "(h_size heap = h_capacity heap \<longrightarrow>
      insert_patient_to_heap heap p = ([WaitingListFull], heap)) \<and>
   (h_size heap < h_capacity heap \<longrightarrow>
      fst (insert_patient_to_heap heap p) = [] \<and>
      h_size (snd (insert_patient_to_heap heap p)) = h_size heap + 1 \<and>
      h_capacity (snd (insert_patient_to_heap heap p)) = h_capacity heap) \<and>
   (heap_wf heap \<and> h_size heap < h_capacity heap \<longrightarrow>
      mset (live (snd (insert_patient_to_heap heap p))) = add_mset p (mset (live heap)))"
proof (intro conjI impI)
  assume "h_size heap = h_capacity heap"
  then show "insert_patient_to_heap heap p = ([WaitingListFull], heap)"
    by (rule insert_full)
next
  assume "h_size heap < h_capacity heap"
  then show "fst (insert_patient_to_heap heap p) = []"
    and "h_size (snd (insert_patient_to_heap heap p)) = h_size heap + 1"
    and "h_capacity (snd (insert_patient_to_heap heap p)) = h_capacity heap"
    by (simp_all add: insert_room heapify_up_frame)
next
  assume "heap_wf heap \<and> h_size heap < h_capacity heap"
  then show "mset (live (snd (insert_patient_to_heap heap p))) = add_mset p (mset (live heap))"
    by (intro insert_mset) simp_all
qed

theorem insert_at_capacity_boundary_witness:
  "insert_patient_to_heap
     \<lparr>h_patients = [\<lparr>name = ''Ravi'', priority_level = 3, patient_id = 1\<rparr>],
      h_size = 1, h_capacity = 1\<rparr>
     \<lparr>name = ''Sita'', priority_level = 1, patient_id = 2\<rparr>
   = ([WaitingListFull],
      \<lparr>h_patients = [\<lparr>name = ''Ravi'', priority_level = 3, patient_id = 1\<rparr>],
       h_size = 1, h_capacity = 1\<rparr>) \<and>
   h_size (snd (insert_patient_to_heap
     \<lparr>h_patients = [\<lparr>name = ''Ravi'', priority_level = 3, patient_id = 1\<rparr>,
                    \<lparr>name = ''Ravi'', priority_level = 3, patient_id = 1\<rparr>],
      h_size = 1, h_capacity = 2\<rparr>
     \<lparr>name = ''Sita'', priority_level = 1, patient_id = 2\<rparr>)) = 2"
  using insert_at_capacity_boundary
     [of "\<lparr>h_patients = [\<lparr>name = ''Ravi'', priority_level = 3, patient_id = 1\<rparr>],
           h_size = 1, h_capacity = 1\<rparr>"
         "\<lparr>name = ''Sita'', priority_level = 1, patient_id = 2\<rparr>"]
    insert_at_capacity_boundary
     [of "\<lparr>h_patients = [\<lparr>name = ''Ravi'', priority_level = 3, patient_id = 1\<rparr>,
                          \<lparr>name = ''Ravi'', priority_level = 3, patient_id = 1\<rparr>],
           h_size = 1, h_capacity = 2\<rparr>"
         "\<lparr>name = ''Sita'', priority_level = 1, patient_id = 2\<rparr>"]
  by simp

text \<open>
  C5. \<open>extract_min\<close> has no error result. On the empty heap of capacity 0 it returns a
  record that was never stored, with priority and identifier -1.
\<close>

theorem extract_min_on_empty_heap_counterexample:
  "extract_min (create_heap [] 0) =
     (\<lparr>name = '''', priority_level = - 1, patient_id = - 1\<rparr>, create_heap [] 0)"
  by (simp add: extract_min_def create_heap_def empty_patient_def)

text \<open>
  C5, as the code has it. On every heap of size 0, \<open>extract_min\<close> returns the record with
  the empty name, priority -1 and identifier -1, and the heap it was given.
\<close>

theorem extract_min_on_empty_heap_returns_sentinel:
  "h_size heap = 0 \<Longrightarrow>
   fst (extract_min heap) = \<lparr>name = '''', priority_level = - 1, patient_id = - 1\<rparr> \<and>
   snd (extract_min heap) = heap"
  by (simp add: extract_min_def empty_patient_def)

theorem extract_min_on_empty_heap_returns_sentinel_witness:
  "h_size (create_heap [] 0) = 0 \<and>
   fst (extract_min (create_heap [] 0)) = \<lparr>name = '''', priority_level = - 1, patient_id = - 1\<rparr>"
  using extract_min_on_empty_heap_returns_sentinel [of "create_heap [] 0"]
  by (simp add: create_heap_def)

section \<open>The heap order under insertions and extractions\<close>

lemma create_heap_wf: "length block = capacity \<Longrightarrow> heap_wf (create_heap block capacity)"
  by (simp add: heap_wf_def create_heap_def)

lemma create_heap_order: "heap_order (create_heap block capacity)"
  by (simp add: heap_order_def create_heap_def)

lemma heap_calls_invariant:
  "heap_wf heap \<Longrightarrow> heap_order heap \<Longrightarrow>
   heap_wf (heap_calls heap calls) \<and> heap_order (heap_calls heap calls)"
proof (induction heap calls rule: heap_calls.induct)
  case (1 heap)
  then show ?case by simp
next
  case (2 heap p calls)
  then show ?case by (simp add: insert_wf insert_order)
next
  case (3 heap calls)
  then show ?case by (simp add: extract_wf extract_order)
qed

text \<open>
  C2. Start from the empty heap that \<open>create_heap\<close> builds on a block of \<open>capacity\<close> cells and
  make any sequence of \<open>insert_patient_to_heap\<close> and \<open>extract_min\<close> calls, with any integer
  priorities. After each call of the sequence the heap-order invariant holds: every node
  whose left child \<open>2i+1\<close> is inside the current size has a priority not above that child's,
  and the same for the right child \<open>2i+2\<close>.
\<close>

theorem heap_order_after_every_call:
  assumes "length block = capacity"
  shows "\<forall>k\<le>length calls. heap_order (heap_calls (create_heap block capacity) (take k calls))"
  using assms heap_calls_invariant [OF create_heap_wf create_heap_order] by blast

theorem heap_order_after_every_call_witness:
  "length [\<lparr>name = '''', priority_level = 0, patient_id = 0\<rparr>,
           \<lparr>name = '''', priority_level = 0, patient_id = 0\<rparr>] = 2 \<and>
   heap_order (heap_calls
     (create_heap [\<lparr>name = '''', priority_level = 0, patient_id = 0\<rparr>,
                   \<lparr>name = '''', priority_level = 0, patient_id = 0\<rparr>] 2)
     (take 3 [Insert \<lparr>name = ''Ravi'', priority_level = 3, patient_id = 1\<rparr>,
              Insert \<lparr>name = ''Sita'', priority_level = 1, patient_id = 2\<rparr>,
              ExtractMin]))"
  using heap_order_after_every_call
    [of "[\<lparr>name = '''', priority_level = 0, patient_id = 0\<rparr>,
          \<lparr>name = '''', priority_level = 0, patient_id = 0\<rparr>]" 2
        "[Insert \<lparr>name = ''Ravi'', priority_level = 3, patient_id = 1\<rparr>,
          Insert \<lparr>name = ''Sita'', priority_level = 1, patient_id = 2\<rparr>,
          ExtractMin]", THEN spec, of 3]
  by simp

lemma live_nth:
  "heap_wf heap \<Longrightarrow> i < h_size heap \<Longrightarrow> live heap ! i = h_patients heap ! i"
  by (simp add: live_def)

lemma length_live: "heap_wf heap \<Longrightarrow> length (live heap) = h_size heap"
  by (simp add: live_def heap_wf_def)

lemma root_le_live:
  assumes "heap_wf heap" "heap_order heap" "p \<in> set (live heap)"
  shows "priority_level (h_patients heap ! 0) \<le> priority_level p"
proof -
  from assms(3) obtain i where i: "i < length (live heap)" "live heap ! i = p"
    by (auto simp: in_set_conv_nth)
  with assms(1) have "i < h_size heap" "h_patients heap ! i = p"
    by (simp_all add: length_live live_nth)
  with heap_order_root_min [OF assms(2), of i] show ?thesis
    by (simp add: prio_def)
qed

lemma leftmost_minimum_root:
  assumes "heap_wf heap" "heap_order heap" "0 < h_size heap"
  shows "leftmost_minimum heap = 0"
proof -
  let ?r = "h_patients heap ! 0"
  have ne: "live heap \<noteq> []"
    using assms length_live [of heap] by auto
  have hd: "hd (live heap) = ?r"
    using assms ne live_nth [of heap 0] by (simp add: hd_conv_nth)
  have "Min (set (map priority_level (live heap))) = priority_level ?r"
  proof (rule Min_eqI)
    show "finite (set (map priority_level (live heap)))" by simp
  next
    fix y assume "y \<in> set (map priority_level (live heap))"
    then show "priority_level ?r \<le> y"
      using root_le_live [OF assms(1) assms(2)] by auto
  next
    have "?r \<in> set (live heap)" using ne hd by (metis hd_in_set)
    then show "priority_level ?r \<in> set (map priority_level (live heap))" by simp
  qed
  moreover have "live heap = ?r # tl (live heap)"
    using ne hd by (metis list.collapse)
  ultimately have "takeWhile (\<lambda>p. priority_level p \<noteq> Min (set (map priority_level (live heap))))
                     (live heap) = []"
    by (metis (mono_tags, lifting) takeWhile.simps(2))
  then show ?thesis
    by (simp add: leftmost_minimum_def Let_def)
qed

lemma smallest_of_tie:
  "2 * k + 2 < h_size heap \<Longrightarrow>
   priority_level (h_patients heap ! (2 * k + 1)) = priority_level (h_patients heap ! (2 * k + 2)) \<Longrightarrow>
   smallest_of heap k =
     (if priority_level (h_patients heap ! (2 * k + 1)) < priority_level (h_patients heap ! k)
      then 2 * k + 1 else k)"
  by (simp add: smallest_of_def Let_def)

lemma heapify_down_above:
  "h_size heap \<le> length (h_patients heap) \<Longrightarrow> i < k \<Longrightarrow>
   h_patients (heapify_down heap k) ! i = h_patients heap ! i"
proof (induction heap k rule: heapify_down.induct)
  case (1 heap index)
  show ?case
  proof (cases "smallest_of heap index = index")
    case True
    then show ?thesis by (simp add: heapify_down_stop)
  next
    case False
    let ?s = "smallest_of heap index"
    let ?heap' = "heap\<lparr>h_patients := swap (h_patients heap) index ?s\<rparr>"
    from False have s: "?s < h_size heap" "index < ?s"
      using smallest_of_range [of heap index] by auto
    then have len: "index < length (h_patients heap)" "?s < length (h_patients heap)"
      using "1.prems" by simp_all
    have "h_patients (heapify_down ?heap' ?s) ! i = h_patients ?heap' ! i"
      using "1.IH" [OF refl False] "1.prems" s by simp
    also have "\<dots> = h_patients heap ! i"
      using len "1.prems" s by (simp add: swap_nth)
    finally show ?thesis
      using False by (simp add: heapify_down_step)
  qed
qed

lemma heapify_down_tie_left:
  assumes len: "h_size hp \<le> length (h_patients hp)"
    and both: "2 * k + 2 < h_size hp"
    and tie: "priority_level (h_patients hp ! (2 * k + 1))
                = priority_level (h_patients hp ! (2 * k + 2))"
    and less: "priority_level (h_patients hp ! (2 * k + 1)) < priority_level (h_patients hp ! k)"
  shows "heapify_down hp k =
           heapify_down (hp\<lparr>h_patients := swap (h_patients hp) k (2 * k + 1)\<rparr>) (2 * k + 1)"
    and "h_patients (heapify_down hp k) ! k = h_patients hp ! (2 * k + 1)"
proof -
  have s: "smallest_of hp k = 2 * k + 1"
    using both tie less by (simp add: smallest_of_tie)
  then show walk: "heapify_down hp k =
           heapify_down (hp\<lparr>h_patients := swap (h_patients hp) k (2 * k + 1)\<rparr>) (2 * k + 1)"
    using heapify_down_step [of hp k] by simp
  let ?hp' = "hp\<lparr>h_patients := swap (h_patients hp) k (2 * k + 1)\<rparr>"
  have "h_patients (heapify_down ?hp' (2 * k + 1)) ! k = h_patients ?hp' ! k"
    using len by (intro heapify_down_above) simp_all
  also have "\<dots> = h_patients hp ! (2 * k + 1)"
    using len both by (simp add: swap_nth)
  finally show "h_patients (heapify_down hp k) ! k = h_patients hp ! (2 * k + 1)"
    by (simp only: walk)
qed

lemma heapify_down_tie_stay:
  assumes both: "2 * k + 2 < h_size hp"
    and tie: "priority_level (h_patients hp ! (2 * k + 1))
                = priority_level (h_patients hp ! (2 * k + 2))"
    and ge: "\<not> priority_level (h_patients hp ! (2 * k + 1)) < priority_level (h_patients hp ! k)"
  shows "heapify_down hp k = hp"
  using assms by (intro heapify_down_stop) (simp add: smallest_of_tie)

lemma extract_tie_left:
  assumes wf: "heap_wf heap"
    and n: "3 < h_size heap"
    and tie: "priority_level (h_patients heap ! 1) = priority_level (h_patients heap ! 2)"
    and less: "priority_level (h_patients heap ! 1)
                 < priority_level (h_patients heap ! (h_size heap - 1))"
  shows "h_patients (snd (extract_min heap)) ! 0 = h_patients heap ! 1"
proof -
  let ?hp = "heap\<lparr>h_patients := (h_patients heap)[0 := h_patients heap ! (h_size heap - 1)],
                   h_size := h_size heap - 1\<rparr>"
  have len: "h_size heap \<le> length (h_patients heap)"
    using wf by (simp add: heap_wf_def)
  have cells: "h_patients ?hp ! 0 = h_patients heap ! (h_size heap - 1)"
    "h_patients ?hp ! 1 = h_patients heap ! 1" "h_patients ?hp ! 2 = h_patients heap ! 2"
  proof -
    from len n have "0 < length (h_patients heap)" by linarith
    then show "h_patients ?hp ! 0 = h_patients heap ! (h_size heap - 1)" by simp
  qed simp_all
  have idx: "2 * 0 + 1 = (1::nat)" "2 * 0 + 2 = (2::nat)" by simp_all
  have t: "priority_level (h_patients ?hp ! 1) = priority_level (h_patients ?hp ! 2)"
    using tie by (simp only: cells)
  have l: "priority_level (h_patients ?hp ! 1) < priority_level (h_patients ?hp ! 0)"
    using less by (simp only: cells)
  have "h_patients (heapify_down ?hp 0) ! 0 = h_patients ?hp ! (2 * 0 + 1)"
  proof (rule heapify_down_tie_left(2))
    show "h_size ?hp \<le> length (h_patients ?hp)" using len by simp
    show "2 * 0 + 2 < h_size ?hp" using n by simp
    show "priority_level (h_patients ?hp ! (2 * 0 + 1))
            = priority_level (h_patients ?hp ! (2 * 0 + 2))"
      using t by (simp only: idx)
    show "priority_level (h_patients ?hp ! (2 * 0 + 1)) < priority_level (h_patients ?hp ! 0)"
      using l by (simp only: idx)
  qed
  then have "h_patients (heapify_down ?hp 0) ! 0 = h_patients ?hp ! 1"
    by (simp only: idx)
  then have "h_patients (heapify_down ?hp 0) ! 0 = h_patients heap ! 1"
    by (simp only: cells)
  moreover have "snd (extract_min heap) = heapify_down ?hp 0"
    using n by (intro extract_many) simp
  ultimately show ?thesis
    by (simp only:)
qed

text \<open>
  C1. On a non-empty heap that satisfies the heap-order invariant, \<open>extract_min\<close> returns the
  record at the position of the structurally leftmost record of minimum priority, and no
  record in the heap has a smaller priority than the one returned. The heap it leaves
  holds the other records and is in heap order again; it is the result of \<open>heapify_down\<close>
  from the root, after the last record was moved there. That walk resolves a tie for the
  left child: when the records at positions 1 and 2 have equal priorities, below that of
  the record moved to the root, the new root is the record that was at position 1. The
  same holds at every node: when the two children of a node have equal priorities,
  \<open>heapify_down\<close> swaps the node with the left child and goes on from there when that child
  is smaller than the node, and otherwise leaves the heap as it is.
\<close>

theorem extract_min_returns_leftmost_minimum:
  assumes "heap_wf heap" "heap_order heap" "0 < h_size heap"
  shows "fst (extract_min heap) = h_patients heap ! leftmost_minimum heap \<and>
         (\<forall>i<h_size heap.
            priority_level (fst (extract_min heap)) \<le> priority_level (h_patients heap ! i)) \<and>
         mset (live heap)
           = add_mset (fst (extract_min heap)) (mset (live (snd (extract_min heap)))) \<and>
         heap_order (snd (extract_min heap)) \<and>
         (1 < h_size heap \<longrightarrow>
            snd (extract_min heap) =
              heapify_down
                (heap\<lparr>h_patients := (h_patients heap)[0 := h_patients heap ! (h_size heap - 1)],
                      h_size := h_size heap - 1\<rparr>) 0) \<and>
         (3 < h_size heap \<and>
          priority_level (h_patients heap ! 1) = priority_level (h_patients heap ! 2) \<and>
          priority_level (h_patients heap ! 1)
            < priority_level (h_patients heap ! (h_size heap - 1)) \<longrightarrow>
            h_patients (snd (extract_min heap)) ! 0 = h_patients heap ! 1) \<and>
         (\<forall>(hp::MinHeap) k.
            h_size hp \<le> length (h_patients hp) \<and> 2 * k + 2 < h_size hp \<and>
            priority_level (h_patients hp ! (2 * k + 1))
              = priority_level (h_patients hp ! (2 * k + 2)) \<longrightarrow>
            (priority_level (h_patients hp ! (2 * k + 1)) < priority_level (h_patients hp ! k) \<longrightarrow>
               heapify_down hp k =
                 heapify_down (hp\<lparr>h_patients := swap (h_patients hp) k (2 * k + 1)\<rparr>)
                   (2 * k + 1) \<and>
               h_patients (heapify_down hp k) ! k = h_patients hp ! (2 * k + 1)) \<and>
            (\<not> priority_level (h_patients hp ! (2 * k + 1)) < priority_level (h_patients hp ! k) \<longrightarrow>
               heapify_down hp k = hp))"
proof (intro conjI allI impI)
  show "fst (extract_min heap) = h_patients heap ! leftmost_minimum heap"
    using assms by (simp add: leftmost_minimum_root extract_root)
next
  fix i assume "i < h_size heap"
  then show "priority_level (fst (extract_min heap)) \<le> priority_level (h_patients heap ! i)"
    using heap_order_root_min [OF assms(2), of i] assms(3) by (simp add: extract_root prio_def)
next
  show "mset (live heap) = add_mset (fst (extract_min heap)) (mset (live (snd (extract_min heap))))"
    using assms(1) assms(3) by (rule extract_mset)
next
  show "heap_order (snd (extract_min heap))"
    using assms(1) assms(2) by (rule extract_order)
next
  assume "1 < h_size heap"
  then show "snd (extract_min heap) =
      heapify_down
        (heap\<lparr>h_patients := (h_patients heap)[0 := h_patients heap ! (h_size heap - 1)],
              h_size := h_size heap - 1\<rparr>) 0"
    by (rule extract_many)
next
  assume "3 < h_size heap \<and>
          priority_level (h_patients heap ! 1) = priority_level (h_patients heap ! 2) \<and>
          priority_level (h_patients heap ! 1)
            < priority_level (h_patients heap ! (h_size heap - 1))"
  then show "h_patients (snd (extract_min heap)) ! 0 = h_patients heap ! 1"
    using extract_tie_left [OF assms(1)] by blast
next
  fix hp :: MinHeap and k
  assume tie: "h_size hp \<le> length (h_patients hp) \<and> 2 * k + 2 < h_size hp \<and>
          priority_level (h_patients hp ! (2 * k + 1)) = priority_level (h_patients hp ! (2 * k + 2))"
  {
    assume less: "priority_level (h_patients hp ! (2 * k + 1)) < priority_level (h_patients hp ! k)"
    from tie less show "heapify_down hp k =
        heapify_down (hp\<lparr>h_patients := swap (h_patients hp) k (2 * k + 1)\<rparr>) (2 * k + 1)"
      by (intro heapify_down_tie_left(1)) simp_all
    from tie less show "h_patients (heapify_down hp k) ! k = h_patients hp ! (2 * k + 1)"
      by (intro heapify_down_tie_left(2)) simp_all
  }
  {
    assume "\<not> priority_level (h_patients hp ! (2 * k + 1)) < priority_level (h_patients hp ! k)"
    with tie show "heapify_down hp k = hp"
      by (intro heapify_down_tie_stay) simp_all
  }
qed

theorem extract_min_returns_leftmost_minimum_witness:
  "heap_wf \<lparr>h_patients = [\<lparr>name = ''Sita'', priority_level = 1, patient_id = 2\<rparr>,
                          \<lparr>name = ''John'', priority_level = 2, patient_id = 5\<rparr>,
                          \<lparr>name = ''Amit'', priority_level = 2, patient_id = 3\<rparr>,
                          \<lparr>name = ''Priya'', priority_level = 4, patient_id = 4\<rparr>],
            h_size = 4, h_capacity = 4\<rparr> \<and>
   heap_order \<lparr>h_patients = [\<lparr>name = ''Sita'', priority_level = 1, patient_id = 2\<rparr>,
                          \<lparr>name = ''John'', priority_level = 2, patient_id = 5\<rparr>,
                          \<lparr>name = ''Amit'', priority_level = 2, patient_id = 3\<rparr>,
                          \<lparr>name = ''Priya'', priority_level = 4, patient_id = 4\<rparr>],
            h_size = 4, h_capacity = 4\<rparr> \<and>
   fst (extract_min \<lparr>h_patients = [\<lparr>name = ''Sita'', priority_level = 1, patient_id = 2\<rparr>,
                          \<lparr>name = ''John'', priority_level = 2, patient_id = 5\<rparr>,
                          \<lparr>name = ''Amit'', priority_level = 2, patient_id = 3\<rparr>,
                          \<lparr>name = ''Priya'', priority_level = 4, patient_id = 4\<rparr>],
            h_size = 4, h_capacity = 4\<rparr>) = \<lparr>name = ''Sita'', priority_level = 1, patient_id = 2\<rparr> \<and>
   h_patients (snd (extract_min \<lparr>h_patients = [\<lparr>name = ''Sita'', priority_level = 1, patient_id = 2\<rparr>,
                          \<lparr>name = ''John'', priority_level = 2, patient_id = 5\<rparr>,
                          \<lparr>name = ''Amit'', priority_level = 2, patient_id = 3\<rparr>,
                          \<lparr>name = ''Priya'', priority_level = 4, patient_id = 4\<rparr>],
            h_size = 4, h_capacity = 4\<rparr>)) ! 0 = \<lparr>name = ''John'', priority_level = 2, patient_id = 5\<rparr>"
proof -
  let ?h = "\<lparr>h_patients = [\<lparr>name = ''Sita'', priority_level = 1, patient_id = 2\<rparr>,
                          \<lparr>name = ''John'', priority_level = 2, patient_id = 5\<rparr>,
                          \<lparr>name = ''Amit'', priority_level = 2, patient_id = 3\<rparr>,
                          \<lparr>name = ''Priya'', priority_level = 4, patient_id = 4\<rparr>],
            h_size = 4, h_capacity = 4\<rparr>"
  have wf: "heap_wf ?h" by (simp add: heap_wf_def)
  have ord: "heap_order ?h"
    unfolding heap_order_def
  proof (intro allI impI)
    fix i assume "i < h_size ?h"
    then consider "i = 0" | "i = 1" | "i = 2" | "i = 3" by fastforce
    then show "(2 * i + 1 < h_size ?h \<longrightarrow>
                  priority_level (h_patients ?h ! i) \<le> priority_level (h_patients ?h ! (2 * i + 1))) \<and>
               (2 * i + 2 < h_size ?h \<longrightarrow>
                  priority_level (h_patients ?h ! i) \<le> priority_level (h_patients ?h ! (2 * i + 2)))"
      by cases simp_all
  qed
  have pos: "0 < h_size ?h" by simp
  have root: "h_patients ?h ! 0 = \<lparr>name = ''Sita'', priority_level = 1, patient_id = 2\<rparr>"
    and left: "h_patients ?h ! 1 = \<lparr>name = ''John'', priority_level = 2, patient_id = 5\<rparr>"
    by simp_all
  have tie: "3 < h_size ?h \<and>
      priority_level (h_patients ?h ! 1) = priority_level (h_patients ?h ! 2) \<and>
      priority_level (h_patients ?h ! 1) < priority_level (h_patients ?h ! (h_size ?h - 1))"
    by simp
  note result = extract_min_returns_leftmost_minimum [OF wf ord pos]
  from result tie have "h_patients (snd (extract_min ?h)) ! 0 = h_patients ?h ! 1"
    by blast
  then have a: "h_patients (snd (extract_min ?h)) ! 0
                  = \<lparr>name = ''John'', priority_level = 2, patient_id = 5\<rparr>"
    by (simp only: left)
  have b: "fst (extract_min ?h) = \<lparr>name = ''Sita'', priority_level = 1, patient_id = 2\<rparr>"
    by (simp add: extract_min_def Let_def)
  from wf ord a b show ?thesis
    by blast
qed

lemma insert_all_invariant:
  "heap_wf heap \<Longrightarrow> heap_order heap \<Longrightarrow> h_size heap + length ps \<le> h_capacity heap \<Longrightarrow>
   heap_wf (insert_all heap ps) \<and> heap_order (insert_all heap ps) \<and>
   h_size (insert_all heap ps) = h_size heap + length ps \<and>
   mset (live (insert_all heap ps)) = mset (live heap) + mset ps"
proof (induction heap ps rule: insert_all.induct)
  case (1 heap)
  then show ?case by simp
next
  case (2 heap p ps)
  let ?heap' = "snd (insert_patient_to_heap heap p)"
  from "2.prems" have room: "h_size heap \<noteq> h_capacity heap" by simp
  have cap: "h_capacity ?heap' = h_capacity heap"
    using room by (simp add: insert_room heapify_up_frame)
  have "heap_wf ?heap'" "heap_order ?heap'" "h_size ?heap' + length ps \<le> h_capacity ?heap'"
    using "2.prems" room cap by (simp_all add: insert_wf insert_order insert_size)
  from "2.IH" [OF this] show ?case
    using "2.prems" room by (simp add: insert_size insert_mset)
qed

lemma extract_n_sorted:
  "heap_wf heap \<Longrightarrow> heap_order heap \<Longrightarrow> n = h_size heap \<Longrightarrow>
   mset (extract_n n heap) = mset (live heap) \<and>
   sorted (map priority_level (extract_n n heap))"
proof (induction n arbitrary: heap)
  case 0
  then show ?case by (simp add: live_def)
next
  case (Suc n)
  let ?heap' = "snd (extract_min heap)"
  from Suc.prems have pos: "0 < h_size heap" by simp
  have inv: "heap_wf ?heap'" "heap_order ?heap'" "n = h_size ?heap'"
    using Suc.prems by (simp_all add: extract_wf extract_order extract_size)
  note IH = Suc.IH [OF inv]
  have split: "mset (live heap) = add_mset (fst (extract_min heap)) (mset (live ?heap'))"
    using extract_mset [OF Suc.prems(1) pos] .
  have "priority_level (fst (extract_min heap)) \<le> priority_level p"
    if "p \<in> set (extract_n n ?heap')" for p
  proof -
    from that IH have "p \<in># mset (live ?heap')" by (metis set_mset_mset)
    with split have "p \<in> set (live heap)" by (metis set_mset_mset insert_iff set_mset_add_mset_insert)
    with root_le_live [OF Suc.prems(1) Suc.prems(2)] pos show ?thesis
      by (simp add: extract_root)
  qed
  with IH split show ?case by auto
qed

text \<open>
  C3. Insert \<open>n\<close> patients, with \<open>n\<close> not above the capacity and any integer priorities, into
  an empty heap, then call \<open>extract_min\<close> \<open>n\<close> times: the records returned are the \<open>n\<close>
  patients inserted, in non-decreasing order of priority.
\<close>

theorem insert_then_extract_all_sorted:
  assumes "length block = capacity" "length ps \<le> capacity"
  shows "sorted (map priority_level
           (extract_n (length ps) (insert_all (create_heap block capacity) ps))) \<and>
         mset (extract_n (length ps) (insert_all (create_heap block capacity) ps)) = mset ps"
proof -
  let ?h0 = "create_heap block capacity"
  have "h_size ?h0 + length ps \<le> h_capacity ?h0"
    using assms by (simp add: create_heap_def)
  note all = insert_all_invariant [OF create_heap_wf [OF assms(1)] create_heap_order this]
  have empty: "h_size ?h0 = 0" "live ?h0 = []"
    by (simp_all add: create_heap_def live_def)
  from all empty have inv: "heap_wf (insert_all ?h0 ps)" "heap_order (insert_all ?h0 ps)"
    "length ps = h_size (insert_all ?h0 ps)" "mset (live (insert_all ?h0 ps)) = mset ps"
    by simp_all
  from extract_n_sorted [OF inv(1) inv(2) inv(3)] inv(4) show ?thesis by simp
qed

theorem insert_then_extract_all_sorted_witness:
  "length [\<lparr>name = '''', priority_level = 0, patient_id = 0\<rparr>,
           \<lparr>name = '''', priority_level = 0, patient_id = 0\<rparr>,
           \<lparr>name = '''', priority_level = 0, patient_id = 0\<rparr>] = 3 \<and>
   length [\<lparr>name = ''Ravi'', priority_level = 3, patient_id = 1\<rparr>,
           \<lparr>name = ''Sita'', priority_level = 1, patient_id = 2\<rparr>,
           \<lparr>name = ''Amit'', priority_level = 2, patient_id = 3\<rparr>] \<le> 3 \<and>
   sorted (map priority_level
     (extract_n
        (length [\<lparr>name = ''Ravi'', priority_level = 3, patient_id = 1\<rparr>,
                 \<lparr>name = ''Sita'', priority_level = 1, patient_id = 2\<rparr>,
                 \<lparr>name = ''Amit'', priority_level = 2, patient_id = 3\<rparr>])
        (insert_all
           (create_heap [\<lparr>name = '''', priority_level = 0, patient_id = 0\<rparr>,
                         \<lparr>name = '''', priority_level = 0, patient_id = 0\<rparr>,
                         \<lparr>name = '''', priority_level = 0, patient_id = 0\<rparr>] 3)
           [\<lparr>name = ''Ravi'', priority_level = 3, patient_id = 1\<rparr>,
            \<lparr>name = ''Sita'', priority_level = 1, patient_id = 2\<rparr>,
            \<lparr>name = ''Amit'', priority_level = 2, patient_id = 3\<rparr>])))"
proof -
  let ?block = "[\<lparr>name = '''', priority_level = 0, patient_id = 0\<rparr>,
                 \<lparr>name = '''', priority_level = 0, patient_id = 0\<rparr>,
                 \<lparr>name = '''', priority_level = 0, patient_id = 0\<rparr>]"
  let ?ps = "[\<lparr>name = ''Ravi'', priority_level = 3, patient_id = 1\<rparr>,
              \<lparr>name = ''Sita'', priority_level = 1, patient_id = 2\<rparr>,
              \<lparr>name = ''Amit'', priority_level = 2, patient_id = 3\<rparr>]"
  have h1: "length ?block = 3" by simp
  have h2: "length ?ps \<le> 3" by simp
  from insert_then_extract_all_sorted [OF h1 h2] h1 h2 show ?thesis
    by blast
qed

lemma scenario_extract:
  "extract_n 3 (insert_all
        (create_heap [\<lparr>name = '''', priority_level = 0, patient_id = 0\<rparr>,
                      \<lparr>name = '''', priority_level = 0, patient_id = 0\<rparr>,
                      \<lparr>name = '''', priority_level = 0, patient_id = 0\<rparr>] 3)
        [\<lparr>name = ''Ravi'', priority_level = 3, patient_id = 1\<rparr>,
         \<lparr>name = ''Sita'', priority_level = 1, patient_id = 2\<rparr>,
         \<lparr>name = ''Amit'', priority_level = 2, patient_id = 3\<rparr>]) =
     [\<lparr>name = ''Sita'', priority_level = 1, patient_id = 2\<rparr>,
      \<lparr>name = ''Amit'', priority_level = 2, patient_id = 3\<rparr>,
      \<lparr>name = ''Ravi'', priority_level = 3, patient_id = 1\<rparr>]"
  by (simp add: numeral_3_eq_3 create_heap_def insert_patient_to_heap_def extract_min_def Let_def
        heapify_up.simps heapify_down.simps smallest_of_def swap_def)

text \<open>
  C10. On a heap of size 0, \<open>extract_min\<close> returns the heap it was given and the sentinel
  record, whose name is empty and whose priority and identifier are -1. The caller cannot
  tell it from a stored record: a heap that holds one record with these fields returns
  the same value.
\<close>

theorem extract_min_empty_sentinel:
  "h_size heap = 0 \<Longrightarrow>
   extract_min heap = (empty_patient, heap) \<and>
   name (fst (extract_min heap)) = '''' \<and>
   priority_level (fst (extract_min heap)) = - 1 \<and>
   patient_id (fst (extract_min heap)) = - 1 \<and>
   (\<forall>block capacity. 0 < capacity \<and> length block = capacity \<longrightarrow>
      fst (extract_min (snd (insert_patient_to_heap (create_heap block capacity)
             \<lparr>name = '''', priority_level = - 1, patient_id = - 1\<rparr>)))
        = fst (extract_min heap))"
proof -
  assume empty: "h_size heap = 0"
  have "fst (extract_min (snd (insert_patient_to_heap (create_heap block capacity) p))) = p"
    if "0 < capacity \<and> length block = capacity" for block capacity p
  proof -
    have "\<not> (0 < (0::nat) \<and> True)" by simp
    have "snd (insert_patient_to_heap (create_heap block capacity) p) =
            \<lparr>h_patients = block[0 := p], h_size = 1, h_capacity = capacity\<rparr>"
      using that heapify_up_stop [of 0] by (simp add: insert_room create_heap_def)
    then show ?thesis
      using that by (simp add: extract_root)
  qed
  then show ?thesis
    using empty by (simp add: extract_empty empty_patient_def)
qed

theorem extract_min_empty_sentinel_witness:
  "h_size (create_heap [] 0) = 0 \<and>
   extract_min (create_heap [] 0) = (empty_patient, create_heap [] 0) \<and>
   fst (extract_min (snd (insert_patient_to_heap
          (create_heap [\<lparr>name = ''Ravi'', priority_level = 3, patient_id = 1\<rparr>] 1)
          \<lparr>name = '''', priority_level = - 1, patient_id = - 1\<rparr>)))
     = fst (extract_min (create_heap [] 0))"
proof -
  have empty: "h_size (create_heap [] 0) = 0" by (simp add: create_heap_def)
  have room: "0 < (1::nat) \<and> length [\<lparr>name = ''Ravi'', priority_level = 3, patient_id = 1\<rparr>] = 1"
    by simp
  from extract_min_empty_sentinel [OF empty] room empty show ?thesis
    by blast
qed

section \<open>Identifiers, service and the treated log\<close>

lemma add_patient_fit:
  "length nm < 60 \<Longrightarrow>
   add_patient system nm priority =
     Some (fst (insert_patient_to_heap (waiting_list system)
                  \<lparr>name = nm, priority_level = priority, patient_id = next_patient_id system\<rparr>)
             @ [NewPatient nm priority],
           system\<lparr>next_patient_id := int_wrap (next_patient_id system + 1),
                  waiting_list := snd (insert_patient_to_heap (waiting_list system)
                    \<lparr>name = nm, priority_level = priority,
                     patient_id = next_patient_id system\<rparr>)\<rparr>)"
  by (simp add: add_patient_def Let_def split: prod.split)

lemma add_patient_long: "60 \<le> length nm \<Longrightarrow> add_patient system nm priority = None"
  by (simp add: add_patient_def)

lemma add_patient_Some:
  assumes "add_patient system nm priority = Some r"
  shows "treated_log (snd r) = treated_log system"
    and "served (fst r) = []"
    and "next_patient_id (snd r) = int_wrap (next_patient_id system + 1)"
proof -
  from assms have fit: "length nm < 60"
    by (cases "60 \<le> length nm") (simp_all add: add_patient_long)
  note eq = assms [unfolded add_patient_fit [OF fit]]
  from eq show "treated_log (snd r) = treated_log system"
    and "next_patient_id (snd r) = int_wrap (next_patient_id system + 1)"
    by auto
  from eq show "served (fst r) = []"
    by (cases "h_size (waiting_list system) = h_capacity (waiting_list system)")
       (auto simp: insert_full insert_room)
qed

lemma int_wrap_add: "int_wrap (int_wrap a + b) = int_wrap (a + b)"
proof -
  have "(((a + 2147483648) mod 4294967296 - 2147483648) + b + 2147483648) mod 4294967296
          = ((a + 2147483648) mod 4294967296 + b) mod 4294967296"
    by (simp add: algebra_simps)
  also have "\<dots> = (a + 2147483648 + b) mod 4294967296"
    by (rule mod_add_left_eq)
  finally show ?thesis
    by (simp add: int_wrap_def algebra_simps)
qed

lemma int_wrap_id: "- 2147483648 \<le> n \<Longrightarrow> n \<le> 2147483647 \<Longrightarrow> int_wrap n = n"
  by (simp add: int_wrap_def)

lemma int_wrap_idem: "int_wrap (int_wrap n) = int_wrap n"
  using int_wrap_add [of n 0] by simp

lemma treat_full_log:
  "h_size (waiting_list system) \<noteq> 0 \<Longrightarrow>
   \<not> l_size (treated_log system) < l_capacity (treated_log system) \<Longrightarrow>
   treat_next_patient system =
     ([TreatingNext (fst (extract_min (waiting_list system))), TreatedLogFull],
      system\<lparr>waiting_list := snd (extract_min (waiting_list system))\<rparr>)"
  by (simp add: treat_next_patient_def Let_def split: prod.split)

lemma treat_log_room:
  "h_size (waiting_list system) \<noteq> 0 \<Longrightarrow>
   l_size (treated_log system) < l_capacity (treated_log system) \<Longrightarrow>
   treat_next_patient system =
     ([TreatingNext (fst (extract_min (waiting_list system)))],
      system\<lparr>waiting_list := snd (extract_min (waiting_list system)),
             treated_log := (treated_log system)
               \<lparr>l_patients := (l_patients (treated_log system))
                    [l_size (treated_log system) := fst (extract_min (waiting_list system))],
                l_size := l_size (treated_log system) + 1\<rparr>\<rparr>)"
  by (simp add: treat_next_patient_def Let_def split: prod.split)

lemma treat_next_id:
  "next_patient_id (snd (treat_next_patient system)) = next_patient_id system"
  by (cases "h_size (waiting_list system) = 0";
      cases "l_size (treated_log system) < l_capacity (treated_log system)")
     (simp_all add: treat_empty treat_full_log treat_log_room)

lemma run_calls_next_id:
  "names_fit calls \<Longrightarrow> int_wrap (next_patient_id system) = next_patient_id system \<Longrightarrow>
   next_patient_id (snd (run_calls system calls)) =
     int_wrap (next_patient_id system + int (length (filter is_Admit calls)))"
proof (induction system calls rule: run_calls.induct)
  case (1 system)
  then show ?case by simp
next
  case (2 system nm priority calls)
  from "2.prems" have fit: "length nm < 60" and rest: "names_fit calls" by simp_all
  obtain r where some: "add_patient system nm priority = Some r"
    using add_patient_fit [OF fit, of system priority] by simp
  have next': "next_patient_id (snd r) = int_wrap (next_patient_id system + 1)"
    using add_patient_Some(3) [OF some] .
  then have "int_wrap (next_patient_id (snd r)) = next_patient_id (snd r)"
    by (simp add: int_wrap_idem)
  from "2.IH" [OF some rest this]
  have "next_patient_id (snd (run_calls (snd r) calls)) =
          int_wrap (int_wrap (next_patient_id system + 1) + int (length (filter is_Admit calls)))"
    by (simp only: next')
  also have "\<dots> = int_wrap (next_patient_id system + 1 + int (length (filter is_Admit calls)))"
    by (rule int_wrap_add)
  finally show ?case
    using some by (simp add: algebra_simps)
next
  case (3 system calls)
  then show ?case by (simp add: treat_next_id)
qed

lemma fresh_next_id:
  assumes "names_fit calls" "length (filter is_Admit calls) < 2147483647"
  shows "next_patient_id (snd (run_calls (create_triage_system heap_block log_block c) calls))
           = int (length (filter is_Admit calls)) + 1"
proof -
  let ?s0 = "create_triage_system heap_block log_block c"
  have one: "next_patient_id ?s0 = 1" by (simp add: create_triage_system_def)
  then have "int_wrap (next_patient_id ?s0) = next_patient_id ?s0"
    by (simp add: int_wrap_def)
  from run_calls_next_id [OF assms(1) this]
  have "next_patient_id (snd (run_calls ?s0 calls))
          = int_wrap (1 + int (length (filter is_Admit calls)))"
    by (simp only: one)
  also have "\<dots> = 1 + int (length (filter is_Admit calls))"
    using assms(2) by (intro int_wrap_id) simp_all
  finally show ?thesis by simp
qed

text \<open>
  C4, as the code has it. Take a freshly created triage system and earlier calls whose
  names fit the name field, \<open>k - 1\<close> of them admissions, with \<open>k\<close> at most 2147483647. The
  next \<open>add_patient\<close> call with a fitting name, the \<open>k\<close>-th, builds the record with identifier
  \<open>k\<close>, hands it to \<open>insert_patient_to_heap\<close>, and leaves the counter at \<open>k + 1\<close> (at
  -2147483648 after the call number 2147483647). It does so whatever the heap holds: on a
  full heap the failure is printed, the waiting list stays as it was, and the counter
  moves all the same.
\<close>

theorem admit_issues_identifiers_up_to_int_max:
  assumes "names_fit calls" and "length nm < 60"
    and "length (filter is_Admit calls) < 2147483647"
  shows "add_patient (snd (run_calls (create_triage_system heap_block log_block c) calls)) nm priority =
     Some (fst (insert_patient_to_heap
                  (waiting_list (snd (run_calls (create_triage_system heap_block log_block c) calls)))
                  \<lparr>name = nm, priority_level = priority,
                   patient_id = int (length (filter is_Admit calls)) + 1\<rparr>)
             @ [NewPatient nm priority],
           (snd (run_calls (create_triage_system heap_block log_block c) calls))
             \<lparr>next_patient_id :=
                (if length (filter is_Admit calls) + 1 < 2147483647
                 then int (length (filter is_Admit calls)) + 1 + 1 else - 2147483648),
              waiting_list :=
                snd (insert_patient_to_heap
                  (waiting_list (snd (run_calls (create_triage_system heap_block log_block c) calls)))
                  \<lparr>name = nm, priority_level = priority,
                   patient_id = int (length (filter is_Admit calls)) + 1\<rparr>)\<rparr>) \<and>
   (h_size (waiting_list (snd (run_calls (create_triage_system heap_block log_block c) calls)))
      = h_capacity (waiting_list (snd (run_calls (create_triage_system heap_block log_block c) calls)))
    \<longrightarrow>
    add_patient (snd (run_calls (create_triage_system heap_block log_block c) calls)) nm priority =
      Some ([WaitingListFull, NewPatient nm priority],
            (snd (run_calls (create_triage_system heap_block log_block c) calls))
              \<lparr>next_patient_id :=
                 (if length (filter is_Admit calls) + 1 < 2147483647
                  then int (length (filter is_Admit calls)) + 1 + 1 else - 2147483648)\<rparr>))"
proof -
  let ?s = "snd (run_calls (create_triage_system heap_block log_block c) calls)"
  let ?k = "int (length (filter is_Admit calls)) + 1"
  have id: "next_patient_id ?s = ?k"
    using assms(1) assms(3) by (rule fresh_next_id)
  have inc: "int_wrap (?k + 1) =
      (if length (filter is_Admit calls) + 1 < 2147483647 then ?k + 1 else - 2147483648)"
  proof (cases "length (filter is_Admit calls) + 1 < 2147483647")
    case True
    then have "int_wrap (?k + 1) = ?k + 1" by (intro int_wrap_id) simp_all
    with True show ?thesis by simp
  next
    case False
    with assms(3) have "length (filter is_Admit calls) = 2147483646" by simp
    then show ?thesis by (simp add: int_wrap_def)
  qed
  show ?thesis
    using add_patient_fit [OF assms(2), of ?s priority]
    by (simp only: id inc) (simp add: insert_full)
qed

theorem admit_issues_identifiers_up_to_int_max_witness:
  "names_fit [Admit ''Ravi'' 3] \<and> length ''Sita'' < 60 \<and>
   length (filter is_Admit [Admit ''Ravi'' 3]) < 2147483647 \<and>
   add_patient (snd (run_calls
       (create_triage_system [\<lparr>name = '''', priority_level = 0, patient_id = 0\<rparr>]
                             [\<lparr>name = '''', priority_level = 0, patient_id = 0\<rparr>] 1)
       [Admit ''Ravi'' 3])) ''Sita'' 1
     = Some ([WaitingListFull, NewPatient ''Sita'' 1],
        \<lparr>waiting_list =
           \<lparr>h_patients = [\<lparr>name = ''Ravi'', priority_level = 3, patient_id = 1\<rparr>],
            h_size = 1, h_capacity = 1\<rparr>,
         treated_log =
           \<lparr>l_patients = [\<lparr>name = '''', priority_level = 0, patient_id = 0\<rparr>],
            l_size = 0, l_capacity = 1\<rparr>,
         next_patient_id = 3\<rparr>)"
proof -
  let ?e = "\<lparr>name = '''', priority_level = 0, patient_id = 0\<rparr>"
  let ?s = "snd (run_calls (create_triage_system [?e] [?e] 1) [Admit ''Ravi'' 3])"
  let ?s1 = "\<lparr>waiting_list =
                \<lparr>h_patients = [\<lparr>name = ''Ravi'', priority_level = 3, patient_id = 1\<rparr>],
                 h_size = 1, h_capacity = 1\<rparr>,
              treated_log = \<lparr>l_patients = [?e], l_size = 0, l_capacity = 1\<rparr>,
              next_patient_id = 2\<rparr>"
  have fit: "names_fit [Admit ''Ravi'' 3]" and short: "length ''Sita'' < 60"
    and few: "length (filter is_Admit [Admit ''Ravi'' 3]) < 2147483647"
    by simp_all
  have state: "?s = ?s1"
    by (simp add: create_triage_system_def create_heap_def add_patient_def int_wrap_def
          insert_patient_to_heap_def Let_def heapify_up.simps)
  then have full: "h_size (waiting_list ?s) = h_capacity (waiting_list ?s)"
    by (simp only:) simp
  from admit_issues_identifiers_up_to_int_max [OF fit short few] full
  have "add_patient ?s ''Sita'' 1 =
      Some ([WaitingListFull, NewPatient ''Sita'' 1],
            ?s\<lparr>next_patient_id :=
                 (if length (filter is_Admit [Admit ''Ravi'' 3]) + 1 < 2147483647
                  then int (length (filter is_Admit [Admit ''Ravi'' 3])) + 1 + 1
                  else - 2147483648)\<rparr>)"
    by blast
  moreover have "(if length (filter is_Admit [Admit ''Ravi'' 3]) + 1 < 2147483647
                  then int (length (filter is_Admit [Admit ''Ravi'' 3])) + 1 + 1
                  else - 2147483648) = 3"
    by simp
  ultimately have "add_patient ?s ''Sita'' 1 =
      Some ([WaitingListFull, NewPatient ''Sita'' 1], ?s\<lparr>next_patient_id := 3\<rparr>)"
    by (simp only:)
  moreover have "?s\<lparr>next_patient_id := 3\<rparr> = ?s1\<lparr>next_patient_id := 3\<rparr>"
    by (simp only: state)
  moreover have "?s1\<lparr>next_patient_id := 3\<rparr> =
      \<lparr>waiting_list =
           \<lparr>h_patients = [\<lparr>name = ''Ravi'', priority_level = 3, patient_id = 1\<rparr>],
            h_size = 1, h_capacity = 1\<rparr>,
         treated_log = \<lparr>l_patients = [?e], l_size = 0, l_capacity = 1\<rparr>,
         next_patient_id = 3\<rparr>"
    by simp
  ultimately have "add_patient ?s ''Sita'' 1 =
      Some ([WaitingListFull, NewPatient ''Sita'' 1],
        \<lparr>waiting_list =
           \<lparr>h_patients = [\<lparr>name = ''Ravi'', priority_level = 3, patient_id = 1\<rparr>],
            h_size = 1, h_capacity = 1\<rparr>,
         treated_log = \<lparr>l_patients = [?e], l_size = 0, l_capacity = 1\<rparr>,
         next_patient_id = 3\<rparr>)"
    by (simp only:)
  with fit short few show ?thesis
    by blast
qed

lemma run_calls_append:
  "run_calls system (xs @ ys) =
     (fst (run_calls system xs) @ fst (run_calls (snd (run_calls system xs)) ys),
      snd (run_calls (snd (run_calls system xs)) ys))"
  if "names_fit xs"
  using that
  by (induction system xs rule: run_calls.induct)
     (auto simp: add_patient_fit split: option.split)

lemma admits_on_full_heap:
  assumes "h_size (waiting_list s) = h_capacity (waiting_list s)" and "length nm < 60"
    and "int_wrap (next_patient_id s) = next_patient_id s"
  shows "snd (run_calls s (replicate n (Admit nm p))) =
           s\<lparr>next_patient_id := int_wrap (next_patient_id s + int n)\<rparr>"
  using assms(1) assms(3)
proof (induction n arbitrary: s)
  case 0
  then show ?case by simp
next
  case (Suc n)
  let ?s' = "s\<lparr>next_patient_id := int_wrap (next_patient_id s + 1)\<rparr>"
  have step: "add_patient s nm p = Some ([WaitingListFull, NewPatient nm p], ?s')"
    using Suc.prems(1) by (simp add: add_patient_fit [OF assms(2)] insert_full)
  have "snd (run_calls ?s' (replicate n (Admit nm p))) =
          ?s'\<lparr>next_patient_id := int_wrap (next_patient_id ?s' + int n)\<rparr>"
    using Suc.prems(1) by (intro Suc.IH) (simp_all add: int_wrap_idem)
  also have "\<dots> = s\<lparr>next_patient_id := int_wrap (next_patient_id s + 1 + int n)\<rparr>"
    by (simp add: int_wrap_add)
  finally show ?case
    by (simp add: step algebra_simps)
qed

text \<open>
  C4. The identifier counter is a C \<open>int\<close>. On a system of capacity 1, after 2147483647
  admissions and one treatment, the patient of the admission number 2147483648 is stored
  with the identifier -2147483648.
\<close>

theorem admit_identifier_overflow_counterexample:
  "live (waiting_list (snd (run_calls
      (create_triage_system [\<lparr>name = '''', priority_level = 0, patient_id = 0\<rparr>]
                            [\<lparr>name = '''', priority_level = 0, patient_id = 0\<rparr>] 1)
      (replicate 2147483647 (Admit '''' 0) @ [ServeNext, Admit '''' 0]))))
     = [\<lparr>name = '''', priority_level = 0, patient_id = - 2147483648\<rparr>]"
proof -
  let ?e = "\<lparr>name = '''', priority_level = 0, patient_id = 0\<rparr>"
  let ?s0 = "create_triage_system [?e] [?e] 1"
  let ?s1 = "\<lparr>waiting_list =
                \<lparr>h_patients = [\<lparr>name = '''', priority_level = 0, patient_id = 1\<rparr>],
                 h_size = 1, h_capacity = 1\<rparr>,
              treated_log = \<lparr>l_patients = [?e], l_size = 0, l_capacity = 1\<rparr>,
              next_patient_id = 2\<rparr>"
  have first: "snd (run_calls ?s0 [Admit '''' 0]) = ?s1"
    by (simp add: create_triage_system_def create_heap_def add_patient_def int_wrap_def
          insert_patient_to_heap_def Let_def heapify_up.simps)
  have rest: "snd (run_calls ?s1 (replicate 2147483646 (Admit '''' 0))) =
                ?s1\<lparr>next_patient_id := int_wrap (next_patient_id ?s1 + int 2147483646)\<rparr>"
    by (rule admits_on_full_heap) (simp_all add: int_wrap_def)
  have wrapped: "int_wrap (next_patient_id ?s1 + int 2147483646) = - 2147483648"
    by (simp add: int_wrap_def)
  have split: "replicate 2147483647 (Admit '''' 0) =
                 [Admit '''' 0] @ replicate 2147483646 (Admit '''' 0)"
  proof -
    have "(2147483647::nat) = Suc 2147483646" by simp
    then show ?thesis by (simp only: replicate_Suc append_Cons append_Nil)
  qed
  have fits: "names_fit [Admit '''' 0]" "names_fit (replicate n (Admit '''' 0))" for n
    by (induction n) simp_all
  have "snd (run_calls ?s0 (replicate 2147483647 (Admit '''' 0))) =
          ?s1\<lparr>next_patient_id := - 2147483648\<rparr>"
    by (simp only: split run_calls_append [OF fits(1)] snd_conv first rest wrapped)
  moreover have "names_fit (replicate 2147483647 (Admit '''' 0))"
    by (rule fits(2))
  ultimately have "snd (run_calls ?s0 (replicate 2147483647 (Admit '''' 0) @ [ServeNext, Admit '''' 0]))
      = snd (run_calls (?s1\<lparr>next_patient_id := - 2147483648\<rparr>) [ServeNext, Admit '''' 0])"
    by (simp only: run_calls_append snd_conv)
  also have "live (waiting_list \<dots>) = [\<lparr>name = '''', priority_level = 0, patient_id = - 2147483648\<rparr>]"
    by (simp add: treat_next_patient_def extract_min_def add_patient_def int_wrap_def
          insert_patient_to_heap_def Let_def heapify_up.simps live_def)
  finally show ?thesis .
qed

lemma run_calls_stopped:
  "\<not> names_fit xs \<Longrightarrow> run_calls system (xs @ ys) = run_calls system xs"
  by (induction system xs rule: run_calls.induct)
     (auto simp: add_patient_fit add_patient_long split: option.split)

text \<open>
  C7. When the waiting list is not empty and the treated log is at its capacity,
  \<open>treat_next_patient\<close> still treats the patient at the root, whose priority is the minimum
  in the heap: that patient leaves the heap, which is the result of \<open>extract_min\<close> and is one
  record smaller; the treated log is unchanged; the warning \<open>TreatedLogFull\<close> is printed
  after the treatment is reported.
\<close>

theorem serve_next_with_full_log:
  assumes "heap_wf (waiting_list system)" "heap_order (waiting_list system)"
    and "0 < h_size (waiting_list system)"
    and "l_size (treated_log system) = l_capacity (treated_log system)"
  shows "served (fst (treat_next_patient system)) = [h_patients (waiting_list system) ! 0] \<and>
         (\<forall>i<h_size (waiting_list system).
            priority_level (h_patients (waiting_list system) ! 0)
              \<le> priority_level (h_patients (waiting_list system) ! i)) \<and>
         waiting_list (snd (treat_next_patient system)) = snd (extract_min (waiting_list system)) \<and>
         h_size (waiting_list (snd (treat_next_patient system)))
           = h_size (waiting_list system) - 1 \<and>
         add_mset (h_patients (waiting_list system) ! 0)
             (mset (live (waiting_list (snd (treat_next_patient system)))))
           = mset (live (waiting_list system)) \<and>
         treated_log (snd (treat_next_patient system)) = treated_log system \<and>
         fst (treat_next_patient system)
           = [TreatingNext (h_patients (waiting_list system) ! 0), TreatedLogFull]"
proof -
  let ?h = "waiting_list system"
  have step: "treat_next_patient system =
      ([TreatingNext (fst (extract_min ?h)), TreatedLogFull],
       system\<lparr>waiting_list := snd (extract_min ?h)\<rparr>)"
    using assms(3) assms(4) by (intro treat_full_log) simp_all
  have root: "fst (extract_min ?h) = h_patients ?h ! 0"
    using assms(3) by (rule extract_root)
  have least: "\<forall>i<h_size ?h. priority_level (h_patients ?h ! 0) \<le> priority_level (h_patients ?h ! i)"
    using heap_order_root_min [OF assms(2)] by (simp add: prio_def)
  have "mset (live ?h) = add_mset (h_patients ?h ! 0) (mset (live (snd (extract_min ?h))))"
    using extract_mset [OF assms(1) assms(3)] root by simp
  with step root least show ?thesis
    by (simp add: extract_size)
qed

theorem serve_next_with_full_log_witness:
  "heap_wf \<lparr>h_patients = [\<lparr>name = ''Sita'', priority_level = 1, patient_id = 2\<rparr>,
                          \<lparr>name = ''Ravi'', priority_level = 3, patient_id = 1\<rparr>],
            h_size = 2, h_capacity = 2\<rparr> \<and>
   heap_order \<lparr>h_patients = [\<lparr>name = ''Sita'', priority_level = 1, patient_id = 2\<rparr>,
                             \<lparr>name = ''Ravi'', priority_level = 3, patient_id = 1\<rparr>],
               h_size = 2, h_capacity = 2\<rparr> \<and>
   treated_log (snd (treat_next_patient
     \<lparr>waiting_list =
        \<lparr>h_patients = [\<lparr>name = ''Sita'', priority_level = 1, patient_id = 2\<rparr>,
                       \<lparr>name = ''Ravi'', priority_level = 3, patient_id = 1\<rparr>],
         h_size = 2, h_capacity = 2\<rparr>,
      treated_log =
        \<lparr>l_patients = [\<lparr>name = ''Amit'', priority_level = 2, patient_id = 3\<rparr>],
         l_size = 1, l_capacity = 1\<rparr>,
      next_patient_id = 4\<rparr>))
     = \<lparr>l_patients = [\<lparr>name = ''Amit'', priority_level = 2, patient_id = 3\<rparr>],
        l_size = 1, l_capacity = 1\<rparr> \<and>
   served (fst (treat_next_patient
     \<lparr>waiting_list =
        \<lparr>h_patients = [\<lparr>name = ''Sita'', priority_level = 1, patient_id = 2\<rparr>,
                       \<lparr>name = ''Ravi'', priority_level = 3, patient_id = 1\<rparr>],
         h_size = 2, h_capacity = 2\<rparr>,
      treated_log =
        \<lparr>l_patients = [\<lparr>name = ''Amit'', priority_level = 2, patient_id = 3\<rparr>],
         l_size = 1, l_capacity = 1\<rparr>,
      next_patient_id = 4\<rparr>))
     = [\<lparr>name = ''Sita'', priority_level = 1, patient_id = 2\<rparr>] \<and>
   h_size (waiting_list (snd (treat_next_patient
     \<lparr>waiting_list =
        \<lparr>h_patients = [\<lparr>name = ''Sita'', priority_level = 1, patient_id = 2\<rparr>,
                       \<lparr>name = ''Ravi'', priority_level = 3, patient_id = 1\<rparr>],
         h_size = 2, h_capacity = 2\<rparr>,
      treated_log =
        \<lparr>l_patients = [\<lparr>name = ''Amit'', priority_level = 2, patient_id = 3\<rparr>],
         l_size = 1, l_capacity = 1\<rparr>,
      next_patient_id = 4\<rparr>))) = 1"
proof -
  let ?h = "\<lparr>h_patients = [\<lparr>name = ''Sita'', priority_level = 1, patient_id = 2\<rparr>,
                           \<lparr>name = ''Ravi'', priority_level = 3, patient_id = 1\<rparr>],
             h_size = 2, h_capacity = 2\<rparr>"
  let ?l = "\<lparr>l_patients = [\<lparr>name = ''Amit'', priority_level = 2, patient_id = 3\<rparr>],
             l_size = 1, l_capacity = 1\<rparr>"
  let ?s = "\<lparr>waiting_list = ?h, treated_log = ?l, next_patient_id = 4\<rparr>"
  have wf: "heap_wf (waiting_list ?s)" by (simp add: heap_wf_def)
  have ord: "heap_order (waiting_list ?s)" by (simp add: heap_order_def)
  have pos: "0 < h_size (waiting_list ?s)" by simp
  have full: "l_size (treated_log ?s) = l_capacity (treated_log ?s)" by simp
  note result = serve_next_with_full_log [OF wf ord pos full]
  from result have "served (fst (treat_next_patient ?s)) = [h_patients (waiting_list ?s) ! 0]"
    by blast
  moreover have "[h_patients (waiting_list ?s) ! 0]
                   = [\<lparr>name = ''Sita'', priority_level = 1, patient_id = 2\<rparr>]"
    by simp
  ultimately have a: "served (fst (treat_next_patient ?s))
                        = [\<lparr>name = ''Sita'', priority_level = 1, patient_id = 2\<rparr>]"
    by (simp only:)
  from result have "treated_log (snd (treat_next_patient ?s)) = treated_log ?s"
    by blast
  moreover have "treated_log ?s = ?l" by simp
  ultimately have b: "treated_log (snd (treat_next_patient ?s)) = ?l"
    by (simp only:)
  from result have "h_size (waiting_list (snd (treat_next_patient ?s)))
                      = h_size (waiting_list ?s) - 1"
    by blast
  moreover have "h_size (waiting_list ?s) - 1 = 1" by simp
  ultimately have c: "h_size (waiting_list (snd (treat_next_patient ?s))) = 1"
    by (simp only:)
  have "heap_wf ?h" "heap_order ?h"
    using wf ord by simp_all
  with a b c show ?thesis
    by blast
qed

lemma logged_take:
  "log_wf (treated_log system) \<Longrightarrow>
   logged system = take (l_size (treated_log system)) (l_patients (treated_log system))"
proof -
  assume "log_wf (treated_log system)"
  then have le: "l_size (treated_log system) \<le> length (l_patients (treated_log system))"
    by (simp add: log_wf_def)
  show ?thesis
    unfolding logged_def
    by (rule nth_equalityI) (use le in simp_all)
qed

lemma treat_log_wf:
  "log_wf (treated_log system) \<Longrightarrow>
   log_wf (treated_log (snd (treat_next_patient system))) \<and>
   l_capacity (treated_log (snd (treat_next_patient system))) = l_capacity (treated_log system)"
  by (cases "h_size (waiting_list system) = 0";
      cases "l_size (treated_log system) < l_capacity (treated_log system)")
     (auto simp: treat_empty treat_full_log treat_log_room log_wf_def)

lemma treat_logged:
  assumes "log_wf (treated_log system)"
  shows "logged (snd (treat_next_patient system)) =
           take (l_capacity (treated_log system))
             (logged system @ served (fst (treat_next_patient system)))"
proof -
  let ?log = "treated_log system"
  have len: "length (logged system) = l_size ?log"
    by (simp add: logged_def)
  have le: "l_size ?log \<le> l_capacity ?log" "length (l_patients ?log) = l_capacity ?log"
    using assms by (simp_all add: log_wf_def)
  consider "h_size (waiting_list system) = 0"
    | "h_size (waiting_list system) \<noteq> 0" "\<not> l_size ?log < l_capacity ?log"
    | "h_size (waiting_list system) \<noteq> 0" "l_size ?log < l_capacity ?log"
    by blast
  then show ?thesis
  proof cases
    case 1
    then show ?thesis using len le by (simp add: treat_empty)
  next
    case 2
    then show ?thesis using len le by (simp add: treat_full_log logged_def)
  next
    case 3
    let ?p = "fst (extract_min (waiting_list system))"
    let ?s' = "snd (treat_next_patient system)"
    have wf': "log_wf (treated_log ?s')"
      using treat_log_wf [OF assms] by simp
    have "logged ?s' = take (l_size ?log + 1) ((l_patients ?log)[l_size ?log := ?p])"
      using 3 logged_take [OF wf'] by (simp add: treat_log_room)
    also have "\<dots> = take (l_size ?log) (l_patients ?log) @ [?p]"
      using 3 le by (simp add: take_Suc_conv_app_nth)
    also have "\<dots> = logged system @ [?p]"
      using logged_take [OF assms] by simp
    finally show ?thesis
      using 3 len by (simp add: treat_log_room)
  qed
qed

lemma take_take_append: "take n (take n xs @ ys) = take n (xs @ ys)"
  by (simp add: min_def)

lemma served_append: "served (xs @ ys) = served xs @ served ys"
  by (induction xs rule: served.induct) simp_all

lemma run_calls_logged:
  "log_wf (treated_log system) \<Longrightarrow>
   log_wf (treated_log (snd (run_calls system calls))) \<and>
   l_capacity (treated_log (snd (run_calls system calls))) = l_capacity (treated_log system) \<and>
   logged (snd (run_calls system calls)) =
     take (l_capacity (treated_log system)) (logged system @ served (fst (run_calls system calls)))"
proof (induction system calls rule: run_calls.induct)
  case (1 system)
  then show ?case by (simp add: logged_def log_wf_def)
next
  case (2 system nm priority calls)
  show ?case
  proof (cases "add_patient system nm priority")
    case None
    have "length (logged system) \<le> l_capacity (treated_log system)"
      using "2.prems" by (simp add: logged_def log_wf_def)
    with None "2.prems" show ?thesis by simp
  next
    case (Some r)
    have log: "treated_log (snd r) = treated_log system" and out: "served (fst r) = []"
      using add_patient_Some [OF Some] by simp_all
    then have same: "logged (snd r) = logged system" by (simp add: logged_def)
    from "2.prems" log have "log_wf (treated_log (snd r))" by simp
    from "2.IH" [OF Some this] show ?thesis
      by (simp add: Some log same out served_append)
  qed
next
  case (3 system calls)
  let ?s1 = "snd (treat_next_patient system)"
  let ?out1 = "fst (treat_next_patient system)"
  let ?out2 = "fst (run_calls ?s1 calls)"
  let ?c = "l_capacity (treated_log system)"
  have wf1: "log_wf (treated_log ?s1)" and cap1: "l_capacity (treated_log ?s1) = ?c"
    using treat_log_wf [OF "3.prems"] by simp_all
  have lg1: "logged ?s1 = take ?c (logged system @ served ?out1)"
    using "3.prems" by (rule treat_logged)
  note IH = "3.IH" [OF wf1]
  have "logged (snd (run_calls ?s1 calls)) = take ?c (logged ?s1 @ served ?out2)"
    using IH cap1 by simp
  also have "\<dots> = take ?c (take ?c (logged system @ served ?out1) @ served ?out2)"
    by (simp only: lg1)
  also have "\<dots> = take ?c ((logged system @ served ?out1) @ served ?out2)"
    by (rule take_take_append)
  also have "\<dots> = take ?c (logged system @ served (?out1 @ ?out2))"
    by (simp only: served_append append_assoc)
  finally have "logged (snd (run_calls ?s1 calls))
                  = take ?c (logged system @ served (?out1 @ ?out2))" .
  with IH cap1 show ?case
    by (simp del: take_append)
qed

lemma create_log_wf:
  "length log_block = c \<Longrightarrow> log_wf (treated_log (create_triage_system heap_block log_block c))"
  by (simp add: create_triage_system_def log_wf_def)

lemma step_logged:
  assumes "log_wf (treated_log system)"
  shows "(is_Admit call \<longrightarrow> treated_log (snd (run_calls system [call])) = treated_log system) \<and>
         (logged (snd (run_calls system [call])) = logged system \<or>
          (\<exists>p. logged (snd (run_calls system [call])) = logged system @ [p]))"
proof (cases call)
  case (Admit nm priority)
  show ?thesis
  proof (cases "add_patient system nm priority")
    case None
    with Admit show ?thesis by simp
  next
    case (Some r)
    with Admit add_patient_Some(1) [OF Some] show ?thesis by (simp add: logged_def)
  qed
next
  case ServeNext
  let ?out = "served (fst (treat_next_patient system))"
  have len: "length (logged system) = l_size (treated_log system)"
    by (simp add: logged_def)
  have le: "l_size (treated_log system) \<le> l_capacity (treated_log system)"
    using assms by (simp add: log_wf_def)
  have out: "?out = [] \<or> (\<exists>p. ?out = [p])"
    by (cases "h_size (waiting_list system) = 0";
        cases "l_size (treated_log system) < l_capacity (treated_log system)")
       (simp_all add: treat_empty treat_full_log treat_log_room)
  have "logged (snd (treat_next_patient system)) =
          logged system @ take (l_capacity (treated_log system) - l_size (treated_log system)) ?out"
    using treat_logged [OF assms] len le by simp
  with out ServeNext show ?thesis
    by (cases "l_capacity (treated_log system) - l_size (treated_log system)") auto
qed

text \<open>
  C9, as the code has it. Run any sequence of calls on a freshly created triage system
  whose log block has \<open>c\<close> cells. The treated log then holds the first \<open>c\<close> of the patients
  reported as treated, in the order of treatment: all \<open>k\<close> of them while \<open>k\<close> is at most \<open>c\<close>.
  Each call leaves the logged records as they were or appends one record at the end, and
  an admission leaves the treated log unchanged.
\<close>

theorem served_log_append_only:
  assumes "length log_block = c"
  shows "logged (snd (run_calls (create_triage_system heap_block log_block c) calls))
           = take c (served (fst (run_calls (create_triage_system heap_block log_block c) calls))) \<and>
         (length (served (fst (run_calls (create_triage_system heap_block log_block c) calls))) \<le> c
            \<longrightarrow>
          logged (snd (run_calls (create_triage_system heap_block log_block c) calls))
            = served (fst (run_calls (create_triage_system heap_block log_block c) calls))) \<and>
         (\<forall>k<length calls.
            (is_Admit (calls ! k) \<longrightarrow>
               treated_log (snd (run_calls (create_triage_system heap_block log_block c)
                                   (take (Suc k) calls)))
                 = treated_log (snd (run_calls (create_triage_system heap_block log_block c)
                                       (take k calls)))) \<and>
            (logged (snd (run_calls (create_triage_system heap_block log_block c)
                            (take (Suc k) calls)))
               = logged (snd (run_calls (create_triage_system heap_block log_block c)
                                (take k calls))) \<or>
             (\<exists>p. logged (snd (run_calls (create_triage_system heap_block log_block c)
                                  (take (Suc k) calls)))
                     = logged (snd (run_calls (create_triage_system heap_block log_block c)
                                      (take k calls))) @ [p])))"
proof (intro conjI allI impI)
  let ?s0 = "create_triage_system heap_block log_block c"
  have wf0: "log_wf (treated_log ?s0)" using assms by (rule create_log_wf)
  have "logged ?s0 = []" "l_capacity (treated_log ?s0) = c"
    by (simp_all add: logged_def create_triage_system_def)
  with run_calls_logged [OF wf0, of calls]
  show bounded: "logged (snd (run_calls ?s0 calls)) = take c (served (fst (run_calls ?s0 calls)))"
    by simp
  {
    assume "length (served (fst (run_calls ?s0 calls))) \<le> c"
    with bounded show "logged (snd (run_calls ?s0 calls)) = served (fst (run_calls ?s0 calls))"
      by simp
  }
  fix k assume k: "k < length calls"
  let ?sk = "snd (run_calls ?s0 (take k calls))"
  have wfk: "log_wf (treated_log ?sk)"
    using run_calls_logged [OF wf0, of "take k calls"] by simp
  have next_state: "snd (run_calls ?s0 (take (Suc k) calls)) = snd (run_calls ?sk [calls ! k])
                      \<or> snd (run_calls ?s0 (take (Suc k) calls)) = ?sk"
  proof (cases "names_fit (take k calls)")
    case True
    then show ?thesis
      using k by (simp add: take_Suc_conv_app_nth run_calls_append)
  next
    case False
    then show ?thesis
      using k by (simp add: take_Suc_conv_app_nth run_calls_stopped)
  qed
  note step = step_logged [OF wfk, of "calls ! k"]
  {
    assume "is_Admit (calls ! k)"
    with step next_state
    show "treated_log (snd (run_calls ?s0 (take (Suc k) calls))) = treated_log ?sk"
      by auto
  }
  from step next_state
  show "logged (snd (run_calls ?s0 (take (Suc k) calls))) = logged ?sk \<or>
      (\<exists>p. logged (snd (run_calls ?s0 (take (Suc k) calls))) = logged ?sk @ [p])"
    by auto
qed

text \<open>
  C9. With a log of one cell, two patients are treated and only the first is logged: the
  log is not the sequence of the treated patients.
\<close>

theorem served_log_counterexample:
  "served (fst (run_calls
      (create_triage_system [\<lparr>name = '''', priority_level = 0, patient_id = 0\<rparr>]
                            [\<lparr>name = '''', priority_level = 0, patient_id = 0\<rparr>] 1)
      [Admit ''Ravi'' 3, ServeNext, Admit ''Sita'' 1, ServeNext]))
     = [\<lparr>name = ''Ravi'', priority_level = 3, patient_id = 1\<rparr>,
        \<lparr>name = ''Sita'', priority_level = 1, patient_id = 2\<rparr>] \<and>
   logged (snd (run_calls
      (create_triage_system [\<lparr>name = '''', priority_level = 0, patient_id = 0\<rparr>]
                            [\<lparr>name = '''', priority_level = 0, patient_id = 0\<rparr>] 1)
      [Admit ''Ravi'' 3, ServeNext, Admit ''Sita'' 1, ServeNext]))
     = [\<lparr>name = ''Ravi'', priority_level = 3, patient_id = 1\<rparr>] \<and>
   logged (snd (run_calls
      (create_triage_system [\<lparr>name = '''', priority_level = 0, patient_id = 0\<rparr>]
                            [\<lparr>name = '''', priority_level = 0, patient_id = 0\<rparr>] 1)
      [Admit ''Ravi'' 3, ServeNext, Admit ''Sita'' 1, ServeNext]))
     \<noteq> served (fst (run_calls
      (create_triage_system [\<lparr>name = '''', priority_level = 0, patient_id = 0\<rparr>]
                            [\<lparr>name = '''', priority_level = 0, patient_id = 0\<rparr>] 1)
      [Admit ''Ravi'' 3, ServeNext, Admit ''Sita'' 1, ServeNext]))"
  by (simp add: create_triage_system_def create_heap_def add_patient_def treat_next_patient_def
        insert_patient_to_heap_def extract_min_def Let_def heapify_up.simps logged_def
        int_wrap_def)
theorem served_log_append_only_witness:
  "length [\<lparr>name = '''', priority_level = 0, patient_id = 0\<rparr>] = 1 \<and>
   logged (snd (run_calls
      (create_triage_system [\<lparr>name = '''', priority_level = 0, patient_id = 0\<rparr>]
                            [\<lparr>name = '''', priority_level = 0, patient_id = 0\<rparr>] 1)
      [Admit ''Ravi'' 3, ServeNext, Admit ''Sita'' 1, ServeNext]))
     = take 1 (served (fst (run_calls
      (create_triage_system [\<lparr>name = '''', priority_level = 0, patient_id = 0\<rparr>]
                            [\<lparr>name = '''', priority_level = 0, patient_id = 0\<rparr>] 1)
      [Admit ''Ravi'' 3, ServeNext, Admit ''Sita'' 1, ServeNext])))"
proof -
  have h: "length [\<lparr>name = '''', priority_level = 0, patient_id = 0\<rparr>] = 1" by simp
  from served_log_append_only [OF h] h show ?thesis
    by blast
qed

end
